theory Spec2Isabelle
  imports Complex_Main
begin

section \<open>Python string primitives used by the program\<close>

text \<open>
  A Python \<open>str\<close> is modelled as a \<open>string\<close>; one \<open>char\<close> stands for one code point
  (the model covers code points below 256).  The line feed is \<open>CHR 0x0A\<close>.
\<close>

definition NL :: char where
  "NL = CHR 0x0A"

text \<open>
  Python clamps a slice bound \<open>i\<close> on a sequence of length \<open>n\<close>: a negative bound
  counts from the end and stops at 0, a bound beyond the end stops at \<open>n\<close>.
\<close>

definition adjust_index :: "nat \<Rightarrow> int \<Rightarrow> nat" where
  "adjust_index n i = (if i < 0 then nat (int n + i) else min n (nat i))"

text \<open>\<open>s[:i]\<close> and \<open>s[i:]\<close>.\<close>

definition slice_to :: "'a list \<Rightarrow> int \<Rightarrow> 'a list" where
  "slice_to s i = take (adjust_index (length s) i) s"

definition slice_from :: "'a list \<Rightarrow> int \<Rightarrow> 'a list" where
  "slice_from s i = drop (adjust_index (length s) i) s"

text \<open>
  The highest index at which \<open>c\<close> occurs in \<open>s\<close>, or \<open>-1\<close> when it does not occur.
\<close>

fun rfind_char :: "char \<Rightarrow> string \<Rightarrow> int" where
  "rfind_char c [] = - 1"
| "rfind_char c (x # xs) =
     (let r = rfind_char c xs
      in if r \<noteq> - 1 then r + 1 else if x = c then 0 else - 1)"

text \<open>\<open>s.rfind(c, 0, e)\<close> for a one-character needle: the search is confined to \<open>s[0:e]\<close>.\<close>

definition rfind :: "string \<Rightarrow> char \<Rightarrow> int \<Rightarrow> int" where
  "rfind s c e = rfind_char c (slice_to s e)"

text \<open>\<open>s.lstrip("\n")\<close>.\<close>

definition lstrip_nl :: "string \<Rightarrow> string" where
  "lstrip_nl s = dropWhile (\<lambda>c. c = NL) s"

section \<open>The message chunker\<close>

text \<open>
  The \<open>while remaining:\<close> loop of \<open>chunk_text\<close>.  The loop need not terminate for every
  \<open>max_len\<close>, so it is a partial function: \<open>None\<close> means that the loop runs forever.
\<close>

partial_function (option) chunk_loop :: "string \<Rightarrow> int \<Rightarrow> string list \<Rightarrow> string list option" where
  "chunk_loop remaining max_len chunks =
     (if remaining = [] then Some chunks
      else if int (length remaining) \<le> max_len then Some (chunks @ [remaining])
      else (let r = rfind remaining NL max_len;
                split_at = (if r = - 1 then max_len else r);
                chunk = slice_to remaining split_at
            in chunk_loop (lstrip_nl (slice_from remaining split_at)) max_len (chunks @ [chunk])))"

declare chunk_loop.simps [code]

definition chunk_text :: "string \<Rightarrow> int \<Rightarrow> string list option" where
  "chunk_text text max_len = chunk_loop text max_len []"

text \<open>
  The split position chosen by one iteration of the loop: the index of the last line feed
  before \<open>max_len\<close>, or \<open>max_len\<close> itself when there is none.
\<close>

definition split_point :: "string \<Rightarrow> int \<Rightarrow> int" where
  "split_point remaining max_len =
     (let r = rfind remaining NL max_len in if r = - 1 then max_len else r)"

text \<open>
  Putting chunks back together: \<open>interleave [c\<^sub>1, \<dots>, c\<^sub>n] [s\<^sub>1, \<dots>]\<close> is
  \<open>c\<^sub>1 @ s\<^sub>1 @ c\<^sub>2 @ \<dots> @ c\<^sub>n\<close>, with a separator between consecutive chunks only.
\<close>

fun interleave :: "'a list list \<Rightarrow> 'a list list \<Rightarrow> 'a list" where
  "interleave [] seps = []"
| "interleave [c] seps = c"
| "interleave (c # cs) [] = c @ interleave cs []"
| "interleave (c # cs) (s # seps) = c @ s @ interleave cs seps"

definition nl_only :: "string \<Rightarrow> bool" where
  "nl_only s = list_all (\<lambda>c. c = NL) s"

section \<open>The filing extractor\<close>

subsection \<open>Raw records of the data source\<close>

text \<open>
  A raw filing is a JSON object.  A key of it is absent, holds \<open>null\<close>, or holds a value of
  the type the data source documents for it.
\<close>

datatype 'a field = Missing | Null | Val 'a

text \<open>\<open>d.get(key)\<close> and \<open>d.get(key, default)\<close>; the result \<open>None\<close> is Python's \<open>None\<close>.\<close>

fun dict_get :: "'a field \<Rightarrow> 'a option" where
  "dict_get Missing = None"
| "dict_get Null = None"
| "dict_get (Val v) = Some v"

fun dict_get_default :: "'a field \<Rightarrow> 'a \<Rightarrow> 'a option" where
  "dict_get_default Missing d = Some d"
| "dict_get_default Null d = None"
| "dict_get_default (Val v) d = Some v"

text \<open>
  Exceptions, all of them subclasses of \<open>Exception\<close>: the configuration error of the
  fetch, what the HTTP client raises (no connection or timeout, an error status, a body
  that is not JSON), and the error of converting an \<open>int\<close> that is too large to a \<open>float\<close>.
\<close>

datatype exn = RuntimeError | RequestException | HTTPError | JSONDecodeError | OverflowError

subsection \<open>Floats\<close>

text \<open>
  A Python \<open>float\<close> is an IEEE double: a finite value, negative zero, an infinity or NaN.
  \<open>Finite r\<close> stands for the double whose value is the real number \<open>r\<close> (\<open>Finite 0\<close> is
  positive zero); the type does not restrict \<open>r\<close> to the representable values.
\<close>

datatype pyfloat = Finite real | NegZero | PosInf | NegInf | NaN

text \<open>
  Comparison of floats.  Every comparison with NaN is false, the two zeros are equal, and
  the infinities lie outside the finite values.
\<close>

fun level :: "pyfloat \<Rightarrow> int" where
  "level NegInf = - 1"
| "level PosInf = 1"
| "level x = 0"

fun magnitude :: "pyfloat \<Rightarrow> real" where
  "magnitude (Finite r) = r"
| "magnitude x = 0"

definition py_gt :: "pyfloat \<Rightarrow> pyfloat \<Rightarrow> bool" where
  "py_gt a b =
     (a \<noteq> NaN \<and> b \<noteq> NaN
      \<and> (level a > level b \<or> (level a = level b \<and> magnitude a > magnitude b)))"

definition py_ge :: "pyfloat \<Rightarrow> pyfloat \<Rightarrow> bool" where
  "py_ge a b =
     (a \<noteq> NaN \<and> b \<noteq> NaN
      \<and> (level a > level b \<or> (level a = level b \<and> magnitude a \<ge> magnitude b)))"

text \<open>
  \<open>float(i)\<close> for an \<open>int\<close>: the nearest double, a tie going to the even significand of 53
  bits; \<open>OverflowError\<close> when the rounded value is beyond the largest double.
\<close>

function bit_length :: "int \<Rightarrow> nat" where
  "bit_length a = (if a \<le> 0 then 0 else Suc (bit_length (a div 2)))"
  by pat_completeness auto
termination
  by (relation "measure nat") auto

declare bit_length.simps [simp del]

definition float_of_int :: "int \<Rightarrow> exn + pyfloat" where
  "float_of_int i =
     (let a = \<bar>i\<bar>; k = bit_length a
      in if k \<le> 53 then Inr (Finite (of_int i))
         else (let e = k - 53;
                   q = a div 2 ^ e;
                   rest = a mod 2 ^ e;
                   half = 2 ^ (e - 1);
                   q' = (if rest > half \<or> (rest = half \<and> odd q) then q + 1 else q);
                   m = q' * 2 ^ e
               in if m \<ge> 2 ^ 1024 then Inl OverflowError
                  else Inr (Finite (of_int (if i < 0 then - m else m)))))"

subsection \<open>Owner entries and raw filings\<close>

text \<open>
  The value under \<open>amountAsPercent\<close> is dynamically typed: \<open>null\<close>, a boolean, a JSON number
  (parsed to an \<open>int\<close> or to a \<open>float\<close>, which may be an infinity or NaN) or a string.
\<close>

datatype json_value = JNull | JBool bool | JInt int | JFloat pyfloat | JString string

record owner =
  amountAsPercent :: "json_value field"

record raw_filing =
  formType :: "string field"
  filedAt :: "string field"
  nameOfIssuer :: "string field"
  owners :: "owner list field"

text \<open>
  The values for which \<open>isinstance(p, (int, float))\<close> holds.  A \<open>bool\<close> is an \<open>int\<close> in
  Python, \<open>True\<close> with the value 1 and \<open>False\<close> with the value 0.
\<close>

datatype pynum = PyInt int | PyFloat pyfloat

fun as_int_or_float :: "json_value \<Rightarrow> pynum option" where
  "as_int_or_float (JBool b) = Some (PyInt (if b then 1 else 0))"
| "as_int_or_float (JInt i) = Some (PyInt i)"
| "as_int_or_float (JFloat x) = Some (PyFloat x)"
| "as_int_or_float JNull = None"
| "as_int_or_float (JString s) = None"

text \<open>\<open>float(p)\<close> for a \<open>p\<close> that passed the test.\<close>

fun to_float :: "pynum \<Rightarrow> exn + pyfloat" where
  "to_float (PyInt i) = float_of_int i"
| "to_float (PyFloat x) = Inr x"

subsection \<open>Calendar dates\<close>

record date =
  year :: nat
  month :: nat
  day :: nat

text \<open>\<open>a < b\<close> on dates.\<close>

definition date_less :: "date \<Rightarrow> date \<Rightarrow> bool" where
  "date_less a b =
     (year a < year b
      \<or> (year a = year b \<and> (month a < month b \<or> (month a = month b \<and> day a < day b))))"

definition is_leap :: "nat \<Rightarrow> bool" where
  "is_leap y = (y mod 4 = 0 \<and> (y mod 100 \<noteq> 0 \<or> y mod 400 = 0))"

definition days_in_month :: "nat \<Rightarrow> nat \<Rightarrow> nat" where
  "days_in_month y m =
     (if m = 2 then (if is_leap y then 29 else 28)
      else if m = 4 \<or> m = 6 \<or> m = 9 \<or> m = 11 then 30 else 31)"

text \<open>The constructor of a date raises \<open>ValueError\<close> (here \<open>None\<close>) outside the calendar.\<close>

definition make_date :: "nat \<Rightarrow> nat \<Rightarrow> nat \<Rightarrow> date option" where
  "make_date y m d =
     (if 1 \<le> y \<and> y \<le> 9999 \<and> 1 \<le> m \<and> m \<le> 12 \<and> 1 \<le> d \<and> d \<le> days_in_month y m
      then Some \<lparr>year = y, month = m, day = d\<rparr> else None)"

text \<open>
  \<open>datetime.strptime(s, "%Y-%m-%d").date()\<close>.  The format is matched as the regular
  expression \<open>(\d\d\d\d)-(1[0-2]|0[1-9]|[1-9])-(3[01]|[12]\d|0[1-9]|[1-9]| [1-9])\<close> at the
  start of \<open>s\<close>, and text left over after the match is an error.
\<close>

definition between :: "char \<Rightarrow> char \<Rightarrow> char \<Rightarrow> bool" where
  "between lo hi c = ((of_char lo :: nat) \<le> of_char c \<and> (of_char c :: nat) \<le> of_char hi)"

definition digit :: "char \<Rightarrow> nat" where
  "digit c = of_char c - of_char CHR ''0''"

fun match_year :: "string \<Rightarrow> (nat \<times> string) option" where
  "match_year (a # b # c # d # rest) =
     (if between CHR ''0'' CHR ''9'' a \<and> between CHR ''0'' CHR ''9'' b
         \<and> between CHR ''0'' CHR ''9'' c \<and> between CHR ''0'' CHR ''9'' d
      then Some (1000 * digit a + 100 * digit b + 10 * digit c + digit d, rest)
      else None)"
| "match_year s = None"

fun match_month :: "string \<Rightarrow> (nat \<times> string) option" where
  "match_month (a # b # rest) =
     (if a = CHR ''1'' \<and> between CHR ''0'' CHR ''2'' b then Some (10 + digit b, rest)
      else if a = CHR ''0'' \<and> between CHR ''1'' CHR ''9'' b then Some (digit b, rest)
      else if between CHR ''1'' CHR ''9'' a then Some (digit a, b # rest)
      else None)"
| "match_month [a] = (if between CHR ''1'' CHR ''9'' a then Some (digit a, []) else None)"
| "match_month [] = None"

fun match_day :: "string \<Rightarrow> (nat \<times> string) option" where
  "match_day (a # b # rest) =
     (if a = CHR ''3'' \<and> between CHR ''0'' CHR ''1'' b then Some (30 + digit b, rest)
      else if between CHR ''1'' CHR ''2'' a \<and> between CHR ''0'' CHR ''9'' b
        then Some (10 * digit a + digit b, rest)
      else if a = CHR ''0'' \<and> between CHR ''1'' CHR ''9'' b then Some (digit b, rest)
      else if between CHR ''1'' CHR ''9'' a then Some (digit a, b # rest)
      else if a = CHR '' '' \<and> between CHR ''1'' CHR ''9'' b then Some (digit b, rest)
      else None)"
| "match_day [a] = (if between CHR ''1'' CHR ''9'' a then Some (digit a, []) else None)"
| "match_day [] = None"

fun match_dash :: "string \<Rightarrow> string option" where
  "match_dash (c # rest) = (if c = CHR ''-'' then Some rest else None)"
| "match_dash [] = None"

definition strptime_ymd :: "string \<Rightarrow> date option" where
  "strptime_ymd s =
     (case match_year s of None \<Rightarrow> None | Some (y, s1) \<Rightarrow>
      (case match_dash s1 of None \<Rightarrow> None | Some s2 \<Rightarrow>
       (case match_month s2 of None \<Rightarrow> None | Some (m, s3) \<Rightarrow>
        (case match_dash s3 of None \<Rightarrow> None | Some s4 \<Rightarrow>
         (case match_day s4 of None \<Rightarrow> None | Some (d, s5) \<Rightarrow>
          (if s5 \<noteq> [] then None else make_date y m d))))))"

subsection \<open>Normalizing one record\<close>

record filing =
  form :: "string option"
  filed_at_date :: string
  issuer :: "string option"
  percent_owned :: "pyfloat option"

text \<open>\<open>f.get("owners", []) or []\<close>.\<close>

definition get_owners :: "raw_filing \<Rightarrow> owner list" where
  "get_owners f = (case dict_get_default (owners f) [] of None \<Rightarrow> [] | Some os \<Rightarrow> os)"

text \<open>
  The loop that collects \<open>percents\<close>; an exception raised by \<open>float(p)\<close> leaves the loop.
\<close>

fun collect_percents :: "owner list \<Rightarrow> pyfloat list \<Rightarrow> exn + pyfloat list" where
  "collect_percents [] percents = Inr percents"
| "collect_percents (ow # rest) percents =
     (case dict_get (amountAsPercent ow) of
        None \<Rightarrow> collect_percents rest percents
      | Some p \<Rightarrow>
          (case as_int_or_float p of
             None \<Rightarrow> collect_percents rest percents
           | Some n \<Rightarrow>
               (case to_float n of
                  Inl ex \<Rightarrow> Inl ex
                | Inr x \<Rightarrow> collect_percents rest (percents @ [x]))))"

text \<open>
  Python's \<open>max\<close> of a non-empty list: the first element, replaced by each later element
  that is greater than the maximum so far.
\<close>

fun max_from :: "pyfloat \<Rightarrow> pyfloat list \<Rightarrow> pyfloat" where
  "max_from m [] = m"
| "max_from m (x # xs) = max_from (if py_gt x m then x else m) xs"

text \<open>\<open>max(percents) if percents else None\<close>.\<close>

fun headline_percent :: "pyfloat list \<Rightarrow> pyfloat option" where
  "headline_percent [] = None"
| "headline_percent (x # xs) = Some (max_from x xs)"

text \<open>\<open>filed_at_raw.split("T", 1)[0]\<close>.\<close>

definition before_T :: "string \<Rightarrow> string" where
  "before_T s = takeWhile (\<lambda>c. c \<noteq> CHR ''T'') s"

text \<open>
  The body of the loop over the raw filings, for one record: \<open>Inr None\<close> when the record is
  skipped (\<open>continue\<close>), \<open>Inr (Some r)\<close> when the dictionary \<open>r\<close> is appended to \<open>results\<close>,
  and \<open>Inl ex\<close> when the exception \<open>ex\<close> leaves the loop.
\<close>

definition normalize :: "raw_filing \<Rightarrow> date \<Rightarrow> exn + filing option" where
  "normalize f cutoff_date =
     (let form = dict_get_default (formType f) [];
          filed_at_raw = dict_get (filedAt f);
          issuer = dict_get_default (nameOfIssuer f) [];
          owners = get_owners f
      in case filed_at_raw of
           None \<Rightarrow> Inr None
         | Some raw \<Rightarrow>
             if raw = [] then Inr None
             else (let filed_date_str = before_T raw
                   in case strptime_ymd filed_date_str of
                        None \<Rightarrow> Inr None
                      | Some filed_date \<Rightarrow>
                          if date_less filed_date cutoff_date then Inr None
                          else (case collect_percents owners [] of
                                  Inl ex \<Rightarrow> Inl ex
                                | Inr percents \<Rightarrow>
                                    Inr (Some \<lparr>form = form, filed_at_date = filed_date_str,
                                               issuer = issuer,
                                               percent_owned = headline_percent percents\<rparr>))))"

subsection \<open>The loop over the raw filings\<close>

fun extract_loop ::
  "raw_filing list \<Rightarrow> date \<Rightarrow> int \<Rightarrow> filing list \<Rightarrow> exn + filing list" where
  "extract_loop [] cutoff_date max_filings results = Inr results"
| "extract_loop (f # filings) cutoff_date max_filings results =
     (if int (length results) \<ge> max_filings then Inr results
      else (case normalize f cutoff_date of
              Inl ex \<Rightarrow> Inl ex
            | Inr None \<Rightarrow> extract_loop filings cutoff_date max_filings results
            | Inr (Some r) \<Rightarrow> extract_loop filings cutoff_date max_filings (results @ [r])))"

text \<open>
  The part of \<open>fetch_13dg_filings_for_cik\<close> that follows the network call: \<open>results = []\<close>,
  the loop, \<open>return results\<close>.  The cutoff date comes from the clock and the lookback window.
\<close>

definition extract_filings :: "raw_filing list \<Rightarrow> date \<Rightarrow> int \<Rightarrow> exn + filing list" where
  "extract_filings filings cutoff_date max_filings =
     extract_loop filings cutoff_date max_filings []"

section \<open>The report formatter\<close>

definition MAX_FILINGS_PER_FUND :: int where
  "MAX_FILINGS_PER_FUND = 5"

text \<open>Decimal digits of an integer, as \<open>str(n)\<close> and an f-string write them.\<close>

fun show_nat :: "nat \<Rightarrow> string" where
  "show_nat n =
     (if n < 10 then [char_of (48 + n)] else show_nat (n div 10) @ [char_of (48 + n mod 10)])"

declare show_nat.simps [simp del]

definition show_int :: "int \<Rightarrow> string" where
  "show_int i = (if i < 0 then CHR ''-'' # show_nat (nat (- i)) else show_nat (nat i))"

text \<open>
  \<open>str.strip()\<close> removes the characters for which \<open>str.isspace\<close> holds; below 256 these are
  the code points 9 to 13, 28 to 32, 133 and 160.
\<close>

definition is_space :: "char \<Rightarrow> bool" where
  "is_space c =
     (let n = (of_char c :: nat)
      in (9 \<le> n \<and> n \<le> 13) \<or> (28 \<le> n \<and> n \<le> 32) \<or> n = 133 \<or> n = 160)"

definition strip :: "string \<Rightarrow> string" where
  "strip s = rev (dropWhile is_space (rev (dropWhile is_space s)))"

text \<open>The format specification \<open><35\<close> on a string: left-aligned, filled with spaces.\<close>

definition ljust :: "nat \<Rightarrow> string \<Rightarrow> string" where
  "ljust width s = s @ replicate (width - length s) CHR '' ''"

text \<open>\<open>sep.join(lines)\<close>.\<close>

fun join :: "string \<Rightarrow> string list \<Rightarrow> string" where
  "join sep [] = []"
| "join sep [x] = x"
| "join sep (x # y # ys) = x @ sep @ join sep (y # ys)"

text \<open>
  The issuer column of a row: \<open>(f["issuer"] or "").strip()\<close>, cut to 32 characters and
  \<open>...\<close> when longer than 35, then written with the format \<open><35\<close>.
\<close>

definition issuer_column :: "filing \<Rightarrow> string" where
  "issuer_column f =
     (let issuer = strip (case issuer f of None \<Rightarrow> [] | Some s \<Rightarrow> s);
          issuer = (if length issuer > 35 then slice_to issuer 32 @ ''...'' else issuer)
      in ljust 35 issuer)"

text \<open>
  One row of the table.  The rendering of a float with one decimal place
  (\<open>f"{p:.1f}"\<close>) is a parameter of the model.
\<close>

definition format_row :: "(pyfloat \<Rightarrow> string) \<Rightarrow> filing \<Rightarrow> string" where
  "format_row fmt_1f f =
     (let date_str = filed_at_date f;
          pct_str = (case percent_owned f of None \<Rightarrow> ''N/A'' | Some p \<Rightarrow> fmt_1f p @ ''%'')
      in date_str @ '' | '' @ issuer_column f @ '' | '' @ pct_str)"

text \<open>The loop \<open>for f in filings\<close>, appending one row per filing.\<close>

fun filing_rows :: "(pyfloat \<Rightarrow> string) \<Rightarrow> filing list \<Rightarrow> string list \<Rightarrow> string list" where
  "filing_rows fmt_1f [] lines = lines"
| "filing_rows fmt_1f (f # filings) lines =
     filing_rows fmt_1f filings (lines @ [format_row fmt_1f f])"

text \<open>The value stored per fund: the dictionary \<open>{"name": ..., "filings": ...}\<close>.\<close>

record fund_info =
  info_name :: string
  info_filings :: "filing list"

text \<open>The lines that one iteration of the loop over the funds appends.\<close>

definition block_lines :: "(pyfloat \<Rightarrow> string) \<Rightarrow> string \<Rightarrow> fund_info \<Rightarrow> string list" where
  "block_lines fmt_1f cik info =
     (let fund_name = info_name info;
          filings = info_filings info;
          lines = [replicate 70 CHR ''='',
                   fund_name @ '' (CIK '' @ cik @ '')'',
                   replicate 70 CHR ''-'',
                   ''Date       | Issuer                               | % owned'',
                   replicate 70 CHR ''-'']
      in if filings = []
         then lines @ [''No 13D/13G filings in the lookback window.'', '''']
         else filing_rows fmt_1f filings lines @ [''''])"

fun fund_blocks ::
  "(pyfloat \<Rightarrow> string) \<Rightarrow> (string \<times> fund_info) list \<Rightarrow> string list \<Rightarrow> string list" where
  "fund_blocks fmt_1f [] lines = lines"
| "fund_blocks fmt_1f ((cik, info) # rest) lines =
     fund_blocks fmt_1f rest (lines @ block_lines fmt_1f cik info)"

text \<open>
  \<open>format_daily_report\<close>.  The dictionary is the list of its items in insertion order; the
  clock reading, already formatted, is \<open>now_str\<close>.
\<close>

definition format_daily_report ::
  "string \<Rightarrow> (pyfloat \<Rightarrow> string) \<Rightarrow> (string \<times> fund_info) list \<Rightarrow> string" where
  "format_daily_report now_str fmt_1f all_funds_filings =
     join [NL]
       (fund_blocks fmt_1f all_funds_filings
          [''Daily 13D/13G Ownership Snapshot'',
           ''Date (UTC): '' @ now_str,
           ''Showing up to '' @ show_int MAX_FILINGS_PER_FUND @ '' latest filings per fund'',
           ''''])"

section \<open>The delivery pipeline\<close>

record fund =
  name :: string
  cik :: string

definition FUNDS :: "fund list" where
  "FUNDS =
     [\<lparr>name = ''Point72 Asset Management'', cik = ''1603466''\<rparr>,
      \<lparr>name = ''Elliott'', cik = ''1791786''\<rparr>,
      \<lparr>name = ''Starboard Value'', cik = ''1517137''\<rparr>,
      \<lparr>name = ''Jane Street'', cik = ''1595888''\<rparr>,
      \<lparr>name = ''Renaissance'', cik = ''1037389''\<rparr>,
      \<lparr>name = ''Citadel'', cik = ''1423053''\<rparr>,
      \<lparr>name = ''Millennium'', cik = ''1273087''\<rparr>]"

definition MAX_TELEGRAM_LENGTH :: int where
  "MAX_TELEGRAM_LENGTH = 4000"

text \<open>The network calls of a run, in the order they are made.\<close>

datatype request = SecApiPost string | TelegramPost string

text \<open>
  What the messaging endpoint answers: the status code, and the outcome of
  \<open>resp.json()\<close> followed by the truth value of \<open>data.get("ok", False)\<close>.
\<close>

record tg_response =
  status_code :: int
  json_ok :: "exn + bool"

text \<open>
  The environment of a run: the module's configuration and the external collaborators.
  \<open>sec_api cik\<close> is the outcome of the POST for that filer, \<open>raise_for_status\<close>,
  \<open>resp.json()\<close> and \<open>data.get("filings", [])\<close>; \<open>telegram body\<close> is the outcome of the POST
  of one message.  \<open>clock_cutoff\<close> is today's UTC date minus the lookback window and
  \<open>clock_now\<close> the formatted clock reading.
\<close>

record env =
  SEC_API_KEY :: string
  TELEGRAM_BOT_TOKEN :: string
  TELEGRAM_CHAT_ID :: string
  sec_api :: "string \<Rightarrow> exn + raw_filing list"
  telegram :: "string \<Rightarrow> exn + tg_response"
  clock_cutoff :: date
  clock_now :: string
  float_format :: "pyfloat \<Rightarrow> string"

text \<open>
  \<open>fetch_13dg_filings_for_cik\<close>: the outcome (an exception, or the list returned) and the
  log of network calls extended by the calls it made.
\<close>

definition fetch_13dg_filings_for_cik ::
  "env \<Rightarrow> string \<Rightarrow> int \<Rightarrow> request list \<Rightarrow> (exn + filing list) \<times> request list" where
  "fetch_13dg_filings_for_cik e c max_filings calls =
     (if SEC_API_KEY e = [] \<or> SEC_API_KEY e = ''YOUR_SEC_API_KEY_HERE''
      then (Inl RuntimeError, calls)
      else (case sec_api e c of
              Inl ex \<Rightarrow> (Inl ex, calls @ [SecApiPost c])
            | Inr filings \<Rightarrow>
                (extract_filings filings (clock_cutoff e) max_filings,
                 calls @ [SecApiPost c])))"

text \<open>
  Assignment \<open>d[k] = v\<close> on a dictionary kept as the list of its items: a new key goes to
  the end, an old key keeps its place.
\<close>

fun dict_set :: "('k \<times> 'v) list \<Rightarrow> 'k \<Rightarrow> 'v \<Rightarrow> ('k \<times> 'v) list" where
  "dict_set [] k v = [(k, v)]"
| "dict_set ((k', v') # d) k v =
     (if k' = k then (k, v) # d else (k', v') # dict_set d k v)"

text \<open>The loop \<open>for fund in FUNDS\<close> of \<open>main\<close>, with its \<open>try\<close> and \<open>except Exception\<close>.\<close>

fun fetch_all ::
  "env \<Rightarrow> fund list \<Rightarrow> (string \<times> fund_info) list \<Rightarrow> request list
     \<Rightarrow> (string \<times> fund_info) list \<times> request list" where
  "fetch_all e [] all_funds_filings calls = (all_funds_filings, calls)"
| "fetch_all e (fund # funds) all_funds_filings calls =
     (case fetch_13dg_filings_for_cik e (cik fund) MAX_FILINGS_PER_FUND calls of
        (outcome, calls') \<Rightarrow>
          (let filings = (case outcome of Inl ex \<Rightarrow> [] | Inr fs \<Rightarrow> fs)
           in fetch_all e funds
                (dict_set all_funds_filings (cik fund)
                   \<lparr>info_name = name fund, info_filings = filings\<rparr>)
                calls'))"

text \<open>
  The item that the loop stores for one fund.  It depends on the environment alone: the
  outcome of a fetch does not depend on the calls made before it.
\<close>

definition fetched :: "env \<Rightarrow> fund \<Rightarrow> string \<times> fund_info" where
  "fetched e fund =
     (cik fund,
      \<lparr>info_name = name fund,
       info_filings =
         (case fst (fetch_13dg_filings_for_cik e (cik fund) MAX_FILINGS_PER_FUND []) of
            Inl ex \<Rightarrow> [] | Inr fs \<Rightarrow> fs)\<rparr>)"

text \<open>
  The loop over the chunks in \<open>send_telegram_message\<close>: \<open>idx\<close> counts from 1, \<open>n\<close> is the
  number of chunks.
\<close>

fun send_parts ::
  "env \<Rightarrow> nat \<Rightarrow> nat \<Rightarrow> string list \<Rightarrow> bool \<Rightarrow> request list \<Rightarrow> bool \<times> request list" where
  "send_parts e idx n [] all_ok calls = (all_ok, calls)"
| "send_parts e idx n (chunk # chunks) all_ok calls =
     (let body = (if n > 1
                  then ''(Part '' @ show_nat idx @ ''/'' @ show_nat n @ '')'' @ [NL] @ chunk
                  else chunk);
          ok = (case telegram e body of
                  Inl ex \<Rightarrow> False
                | Inr resp \<Rightarrow>
                    if status_code resp \<noteq> 200 then False
                    else (case json_ok resp of Inl ex \<Rightarrow> False | Inr b \<Rightarrow> b))
      in send_parts e (idx + 1) n chunks (all_ok \<and> ok) (calls @ [TelegramPost body]))"

text \<open>\<open>send_telegram_message\<close>; \<open>None\<close> when the chunker does not return.\<close>

definition send_telegram_message ::
  "env \<Rightarrow> string \<Rightarrow> request list \<Rightarrow> (bool \<times> request list) option" where
  "send_telegram_message e text calls =
     (if TELEGRAM_BOT_TOKEN e = [] \<or> TELEGRAM_CHAT_ID e = [] then Some (False, calls)
      else (case chunk_text text MAX_TELEGRAM_LENGTH of
              None \<Rightarrow> None
            | Some chunks \<Rightarrow> Some (send_parts e 1 (length chunks) chunks True calls)))"

text \<open>
  \<open>main\<close>.  What a run leaves behind: the report text, whether every part was delivered,
  and the network calls made.
\<close>

record run =
  report_text :: string
  delivered :: bool
  requests :: "request list"

definition main :: "env \<Rightarrow> run option" where
  "main e =
     (case fetch_all e FUNDS [] [] of
        (all_funds_filings, calls) \<Rightarrow>
          (let report = format_daily_report (clock_now e) (float_format e) all_funds_filings
           in case send_telegram_message e report calls of
                None \<Rightarrow> None
              | Some (ok, calls') \<Rightarrow>
                  Some \<lparr>report_text = report, delivered = ok, requests = calls'\<rparr>))"

section \<open>Sample inputs\<close>

text \<open>
  Four raw filings as the data source returns them, newest first: one with three owner
  entries, one older than the cutoff, one with absent and \<open>null\<close> fields, one with no owners.
\<close>

definition sample_filings :: "raw_filing list" where
  "sample_filings =
     [\<lparr>formType = Val ''SC 13G'', filedAt = Val ''2025-11-24T17:12:34-04:00'',
        nameOfIssuer = Val ''ACME Corp'',
        owners = Val [\<lparr>amountAsPercent = Val (JFloat (Finite 5.5))\<rparr>, \<lparr>amountAsPercent = Missing\<rparr>,
                      \<lparr>amountAsPercent = Val (JInt 7)\<rparr>]\<rparr>,
      \<lparr>formType = Val ''SC 13D'', filedAt = Val ''2023-01-02T09:00:00-05:00'',
        nameOfIssuer = Val ''Old Corp'', owners = Null\<rparr>,
      \<lparr>formType = Missing, filedAt = Val ''2025-10-01T09:00:00-04:00'',
        nameOfIssuer = Null, owners = Missing\<rparr>,
      \<lparr>formType = Val ''SC 13G'', filedAt = Val ''2025-09-01T09:00:00-04:00'',
        nameOfIssuer = Val ''Third Corp'', owners = Val []\<rparr>]"

definition sample_cutoff :: date where
  "sample_cutoff = \<lparr>year = 2024, month = 11, day = 24\<rparr>"

text \<open>
  An environment in which the data source fails for one filer and the messaging endpoint
  accepts every message, and the same environment without a credential.  Its rendering of
  floats is right for whole numbers, which is all the samples hold, and for the
  values that are not finite.
\<close>

definition sample_env :: env where
  "sample_env =
     \<lparr>SEC_API_KEY = ''secret'', TELEGRAM_BOT_TOKEN = ''token'', TELEGRAM_CHAT_ID = ''42'',
      sec_api = (\<lambda>c. if c = ''1791786'' then Inl RequestException else Inr sample_filings),
      telegram = (\<lambda>body. Inr \<lparr>status_code = 200, json_ok = Inr True\<rparr>),
      clock_cutoff = sample_cutoff,
      clock_now = ''2025-11-25 06:00:00'',
      float_format =
        (\<lambda>p. case p of
               Finite r \<Rightarrow> show_int \<lfloor>r\<rfloor> @ ''.0''
             | NegZero \<Rightarrow> ''-0.0'' | PosInf \<Rightarrow> ''inf'' | NegInf \<Rightarrow> ''-inf''
             | NaN \<Rightarrow> ''nan'')\<rparr>"

definition keyless_env :: env where
  "keyless_env = sample_env\<lparr>SEC_API_KEY := []\<rparr>"

text \<open>A normalized filing whose issuer name is longer than the issuer column.\<close>

definition sample_row :: filing where
  "sample_row =
     \<lparr>form = Some ''SC 13G'', filed_at_date = ''2025-11-24'',
      issuer = Some ''ACME Holdings Corporation International'', percent_owned = Some (Finite 7)\<rparr>"

text \<open>
  A raw filing inside the window whose owner entries carry the given values under
  \<open>amountAsPercent\<close>.
\<close>

definition filing_with :: "json_value list \<Rightarrow> raw_filing" where
  "filing_with values =
     \<lparr>formType = Val ''SC 13G'', filedAt = Val ''2025-11-24T17:12:34-04:00'',
      nameOfIssuer = Val ''ACME Corp'',
      owners = Val (map (\<lambda>v. \<lparr>amountAsPercent = Val v\<rparr>) values)\<rparr>"

section \<open>Properties of the chunker\<close>

subsection \<open>Searching and slicing\<close>

lemma rfind_char_range: "- 1 \<le> rfind_char c s \<and> rfind_char c s < int (length s)"
  by (induction s) (auto simp: Let_def)

lemma rfind_char_none: "rfind_char c s = - 1 \<longleftrightarrow> c \<notin> set s"
proof (induction s)
  case Nil
  then show ?case by simp
next
  case (Cons x xs)
  then show ?case
    using rfind_char_range [of c xs] by (auto simp: Let_def)
qed

lemma rfind_char_hit: "rfind_char c s \<noteq> - 1 \<Longrightarrow> s ! nat (rfind_char c s) = c"
proof (induction s)
  case Nil
  then show ?case by simp
next
  case (Cons x xs)
  show ?case
  proof (cases "rfind_char c xs = - 1")
    case True
    with Cons.prems show ?thesis by (auto simp: Let_def split: if_splits)
  next
    case False
    moreover have "0 \<le> rfind_char c xs"
      using False rfind_char_range [of c xs] by linarith
    ultimately show ?thesis
      using Cons.IH by (simp add: Let_def nat_add_distrib)
  qed
qed

lemma rfind_char_zero: "rfind_char c s = 0 \<longleftrightarrow> (\<exists>xs. s = c # xs \<and> c \<notin> set xs)"
proof (cases s)
  case Nil
  then show ?thesis by simp
next
  case (Cons x xs)
  then show ?thesis
    using rfind_char_range [of c xs] rfind_char_none [of c xs]
    by (auto simp: Let_def)
qed

lemma chunk_loop_step:
  assumes "remaining \<noteq> []" and "\<not> int (length remaining) \<le> max_len"
  shows "chunk_loop remaining max_len chunks =
           chunk_loop (lstrip_nl (slice_from remaining (split_point remaining max_len))) max_len
             (chunks @ [slice_to remaining (split_point remaining max_len)])"
  using assms by (subst chunk_loop.simps) (simp add: split_point_def Let_def)

lemma split_point_range:
  assumes "1 \<le> max_len" and "max_len < int (length remaining)"
  shows "0 \<le> split_point remaining max_len \<and> split_point remaining max_len \<le> max_len"
proof -
  have len: "length (slice_to remaining max_len) = nat max_len"
    using assms by (simp add: slice_to_def adjust_index_def)
  show ?thesis
    using assms rfind_char_range [of NL "slice_to remaining max_len"] len
    by (auto simp: split_point_def rfind_def Let_def)
qed

lemma split_parts:
  "slice_to s i @ takeWhile (\<lambda>c. c = NL) (slice_from s i) @ lstrip_nl (slice_from s i) = s"
  by (simp add: slice_to_def slice_from_def lstrip_nl_def)

lemma split_point_zero:
  assumes "1 \<le> max_len" and "max_len < int (length remaining)"
    and "split_point remaining max_len = 0"
  shows "\<exists>xs. remaining = NL # xs"
proof -
  have r: "rfind_char NL (slice_to remaining max_len) = 0"
    using assms by (auto simp: split_point_def rfind_def Let_def split: if_splits)
  then obtain xs where "slice_to remaining max_len = NL # xs"
    by (auto simp: rfind_char_zero)
  moreover have "adjust_index (length remaining) max_len = nat max_len"
    using assms by (simp add: adjust_index_def)
  ultimately have "take (nat max_len) remaining = NL # xs"
    by (simp add: slice_to_def)
  then show ?thesis
    by (cases remaining) (auto simp: take_Cons' split: if_splits)
qed

lemma step_shorter:
  assumes "1 \<le> max_len" and "max_len < int (length remaining)"
  shows "length (lstrip_nl (slice_from remaining (split_point remaining max_len))) < length remaining"
proof (cases "split_point remaining max_len = 0")
  case True
  then obtain xs where xs: "remaining = NL # xs"
    using split_point_zero [OF assms] by blast
  have "length (dropWhile (\<lambda>c. c = NL) xs) \<le> length xs"
    by (rule length_dropWhile_le)
  then show ?thesis
    using True xs by (simp add: lstrip_nl_def slice_from_def adjust_index_def)
next
  case False
  then have pos: "0 < split_point remaining max_len"
    using split_point_range [OF assms] by linarith
  have "length (lstrip_nl (slice_from remaining (split_point remaining max_len)))
          \<le> length (slice_from remaining (split_point remaining max_len))"
    unfolding lstrip_nl_def by (rule length_dropWhile_le)
  also have "\<dots> < length remaining"
    using pos assms split_point_range [OF assms]
    by (simp add: slice_from_def adjust_index_def)
  finally show ?thesis .
qed

lemma chunk_len:
  assumes "1 \<le> max_len" and "max_len < int (length remaining)"
  shows "int (length (slice_to remaining (split_point remaining max_len))) \<le> max_len"
  using split_point_range [OF assms] assms
  by (auto simp: slice_to_def adjust_index_def)

lemma chunk_loop_spec:
  assumes "1 \<le> max_len"
  shows "\<exists>cs seps. chunk_loop remaining max_len chunks = Some (chunks @ cs)
           \<and> (\<forall>c\<in>set cs. int (length c) \<le> max_len)
           \<and> length seps = length cs
           \<and> (\<forall>s\<in>set seps. \<forall>c\<in>set s. c = NL)
           \<and> remaining = concat (map2 (@) cs seps)"
proof (induction remaining arbitrary: chunks rule: length_induct)
  case (1 remaining)
  show ?case
  proof (cases "remaining = []")
    case True
    then have "chunk_loop remaining max_len chunks = Some (chunks @ [])"
      by (subst chunk_loop.simps) simp
    with True show ?thesis by fastforce
  next
    case False
    show ?thesis
    proof (cases "int (length remaining) \<le> max_len")
      case True
      with False have "chunk_loop remaining max_len chunks = Some (chunks @ [remaining])"
        by (subst chunk_loop.simps) simp
      moreover have "length [[]::string] = length [remaining]" by simp
      moreover have "remaining = concat (map2 (@) [remaining] [[]])" by simp
      ultimately show ?thesis using True
        by (intro exI [of _ "[remaining]"] exI [of _ "[[]]"]) simp
    next
      case big: False
      define k where "k = split_point remaining max_len"
      define chunk where "chunk = slice_to remaining k"
      define sep where "sep = takeWhile (\<lambda>c. c = NL) (slice_from remaining k)"
      define rest where "rest = lstrip_nl (slice_from remaining k)"
      have lt: "max_len < int (length remaining)" using big by simp
      have "length rest < length remaining"
        unfolding rest_def k_def by (rule step_shorter [OF assms lt])
      then obtain cs seps where
        run: "chunk_loop rest max_len (chunks @ [chunk]) = Some ((chunks @ [chunk]) @ cs)"
        and len: "\<forall>c\<in>set cs. int (length c) \<le> max_len"
        and eq: "length seps = length cs"
        and nl: "\<forall>s\<in>set seps. \<forall>c\<in>set s. c = NL"
        and cat: "rest = concat (map2 (@) cs seps)"
        using 1 by blast
      have "chunk_loop remaining max_len chunks = Some (chunks @ chunk # cs)"
        using chunk_loop_step [OF False big, of chunks] run
        by (simp add: chunk_def rest_def k_def)
      moreover have "\<forall>c\<in>set (chunk # cs). int (length c) \<le> max_len"
        using len chunk_len [OF assms lt] by (simp add: chunk_def k_def)
      moreover have "length (sep # seps) = length (chunk # cs)"
        using eq by simp
      moreover have "\<forall>s\<in>set (sep # seps). \<forall>c\<in>set s. c = NL"
        using nl by (auto simp: sep_def dest: set_takeWhileD)
      moreover have "remaining = concat (map2 (@) (chunk # cs) (sep # seps))"
        using cat split_parts [of remaining k]
        by (simp add: chunk_def sep_def rest_def)
      ultimately show ?thesis by blast
    qed
  qed
qed

subsection \<open>The loop for \<open>max_len = 0\<close>\<close>

lemma chunk_loop_zero_no_result:
  assumes "chunk_loop remaining max_len chunks = Some y"
  shows "\<not> (max_len = 0 \<and> remaining \<noteq> [] \<and> hd remaining \<noteq> NL)"
proof (rule chunk_loop.raw_induct
    [where P = "\<lambda>r m c y. \<not> (m = 0 \<and> r \<noteq> [] \<and> hd r \<noteq> NL)", OF _ assms], goal_cases)
  case (1 f remaining max_len chunks y)
  show ?case
  proof
    assume a: "max_len = 0 \<and> remaining \<noteq> [] \<and> hd remaining \<noteq> NL"
    have r: "rfind remaining NL 0 = - 1"
      by (simp add: rfind_def slice_to_def adjust_index_def)
    have same: "lstrip_nl (slice_from remaining 0) = remaining"
      using a by (cases remaining) (simp_all add: lstrip_nl_def slice_from_def adjust_index_def)
    have "f remaining max_len (chunks @ [slice_to remaining max_len]) = Some y"
      using 1(2) a by (simp add: Let_def r same)
    then show False using 1(1) a by blast
  qed
qed

lemma chunk_loop_zero_diverges:
  assumes "remaining \<noteq> []" and "hd remaining \<noteq> NL"
  shows "chunk_loop remaining 0 chunks = None"
  using assms chunk_loop_zero_no_result [of remaining 0 chunks]
  by (cases "chunk_loop remaining 0 chunks") auto

subsection \<open>Separators after and between chunks\<close>

lemma interleave_butlast:
  assumes "length seps = length cs" and "cs \<noteq> []"
  shows "concat (map2 (@) cs seps) = interleave cs (butlast seps) @ last seps"
  using assms
proof (induction cs arbitrary: seps)
  case Nil
  then show ?case by simp
next
  case (Cons c cs)
  then obtain s seps' where seps: "seps = s # seps'" and len: "length seps' = length cs"
    by (cases seps) auto
  show ?case
  proof (cases cs)
    case Nil
    with len seps show ?thesis by simp
  next
    case (Cons c' cs')
    then obtain s' seps'' where "seps' = s' # seps''"
      using len by (cases seps') auto
    with Cons Cons.IH [of seps'] len seps show ?thesis by simp
  qed
qed

subsection \<open>The claims about the chunker\<close>

text \<open>
  Claim C3.  For every input text and every \<open>max_len > 0\<close> the chunker returns, and every
  chunk it emits has length at most \<open>max_len\<close>.
\<close>

theorem chunk_text_bounded:
  assumes "0 < max_len"
  shows "\<exists>chunks. chunk_text text max_len = Some chunks
           \<and> (\<forall>c\<in>set chunks. int (length c) \<le> max_len)"
proof -
  from assms have "1 \<le> max_len" by simp
  from chunk_loop_spec [OF this, of "text" "[]"] show ?thesis
    unfolding chunk_text_def by auto
qed

theorem chunk_text_bounded_witness:
  "(0::int) < 3
   \<and> (\<exists>chunks. chunk_text (''ab'' @ [NL] @ ''cdefg'' @ [NL, NL] @ ''h'') 3 = Some chunks
         \<and> (\<forall>c\<in>set chunks. int (length c) \<le> 3))"
  using chunk_text_bounded [of 3 "''ab'' @ [NL] @ ''cdefg'' @ [NL, NL] @ ''h''"] by simp

lemma chunk_text_example:
  "chunk_text (''ab'' @ [NL] @ ''cdefg'' @ [NL, NL] @ ''h'') 3 = Some [''ab'', ''cde'', ''fg'', ''h'']"
  by code_simp

text \<open>
  Claim C4, as stated: the text is the chunks in order with a newline-only separator between
  consecutive chunks.  This fails when the text ends in line feeds that the chunker strips
  after the last split: \<open>"a\n"\<close> with \<open>max_len = 1\<close> gives the single chunk \<open>"a"\<close>, and with
  one chunk there is no separator to restore.
\<close>

theorem chunk_text_rebuild_counterexample:
  "(0::int) < 1 \<and> chunk_text (''a'' @ [NL]) 1 = Some [''a'']
   \<and> \<not> (\<exists>seps. length seps = length [''a''] - 1 \<and> (\<forall>s\<in>set seps. nl_only s)
            \<and> ''a'' @ [NL] = interleave [''a''] seps)"
proof -
  have "chunk_text (''a'' @ [NL]) 1 = Some [''a'']" by code_simp
  then show ?thesis by simp
qed

text \<open>
  Claim C4, amended: for every input text and every \<open>max_len > 0\<close> the text is the chunks in
  order with a newline-only separator between consecutive chunks, followed by a newline-only
  suffix (the line feeds stripped after the last chunk; empty when the loop ends with the
  final short chunk).
\<close>

theorem chunk_text_rebuild:
  assumes "0 < max_len"
  shows "\<exists>chunks seps suffix. chunk_text text max_len = Some chunks
           \<and> length seps = length chunks - 1
           \<and> (\<forall>s\<in>set seps. nl_only s) \<and> nl_only suffix
           \<and> text = interleave chunks seps @ suffix"
proof -
  from assms have "1 \<le> max_len" by simp
  from chunk_loop_spec [OF this, of "text" "[]"]
  obtain cs seps where run: "chunk_text text max_len = Some cs"
    and len: "length seps = length cs"
    and nl: "\<forall>s\<in>set seps. \<forall>c\<in>set s. c = NL"
    and cat: "text = concat (map2 (@) cs seps)"
    unfolding chunk_text_def by auto
  show ?thesis
  proof (cases "cs = []")
    case True
    with run cat show ?thesis
      by (intro exI [of _ "[]"]) (simp add: nl_only_def)
  next
    case False
    with len have ne: "seps \<noteq> []" by auto
    have "text = interleave cs (butlast seps) @ last seps"
      using cat interleave_butlast [OF len False] by simp
    moreover have "length (butlast seps) = length cs - 1"
      using len by simp
    moreover have "\<forall>s\<in>set (butlast seps). nl_only s"
      using nl by (auto simp: nl_only_def list_all_iff dest: in_set_butlastD)
    moreover have "nl_only (last seps)"
      using nl last_in_set [OF ne] by (auto simp: nl_only_def list_all_iff)
    ultimately show ?thesis using run by blast
  qed
qed

theorem chunk_text_rebuild_witness:
  "(0::int) < 1
   \<and> (\<exists>chunks seps suffix. chunk_text (''a'' @ [NL]) 1 = Some chunks
         \<and> length seps = length chunks - 1
         \<and> (\<forall>s\<in>set seps. nl_only s) \<and> nl_only suffix
         \<and> ''a'' @ [NL] = interleave chunks seps @ suffix)"
  using chunk_text_rebuild [of 1 "''a'' @ [NL]"] by simp

text \<open>
  Claim C5, as stated: every text of length at most \<open>max_len\<close> gives exactly one chunk.  The
  empty text is such a text, and the loop guard \<open>while remaining\<close> gives it no chunk at all.
\<close>

theorem chunk_text_single_counterexample:
  "(0::int) < 1 \<and> int (length ([]::string)) \<le> 1 \<and> chunk_text [] 1 = Some []
   \<and> chunk_text [] 1 \<noteq> Some [[]]"
proof -
  have "chunk_text [] 1 = Some []" by code_simp
  then show ?thesis by simp
qed

text \<open>
  Claim C5, amended: for every non-empty text of length at most \<open>max_len\<close> (with
  \<open>max_len > 0\<close>) the chunker returns exactly one chunk, equal to the text; chunking that
  chunk again returns the same single chunk.
\<close>

theorem chunk_text_single:
  assumes "0 < max_len" and "text \<noteq> []" and "int (length text) \<le> max_len"
  shows "chunk_text text max_len = Some [text]
         \<and> (case chunk_text text max_len of
                Some [chunk] \<Rightarrow> chunk_text chunk max_len = Some [chunk]
              | _ \<Rightarrow> False)"
proof -
  have "chunk_text text max_len = Some [text]"
    using assms unfolding chunk_text_def by (subst chunk_loop.simps) simp
  then show ?thesis by simp
qed

theorem chunk_text_single_witness:
  "(0::int) < 5 \<and> ''abc'' \<noteq> [] \<and> int (length ''abc'') \<le> 5
   \<and> chunk_text ''abc'' 5 = Some [''abc'']
   \<and> (case chunk_text ''abc'' 5 of
          Some [chunk] \<Rightarrow> chunk_text chunk 5 = Some [chunk]
        | _ \<Rightarrow> False)"
  using chunk_text_single [of 5 "''abc''"] by simp

text \<open>
  Claim C9.  The chunker can emit an empty chunk for some \<open>max_len \<ge> 1\<close>: whenever the text
  is longer than \<open>max_len\<close> and the only line feed before index \<open>max_len\<close> is the one at
  index 0, the first chunk is empty.  A line feed followed by one line longer than
  \<open>max_len\<close> is such a text.
\<close>

theorem chunk_text_empty_chunk:
  "(\<exists>text max_len chunks. 1 \<le> max_len \<and> chunk_text text max_len = Some chunks \<and> [] \<in> set chunks)
   \<and> (\<forall>text max_len.
         1 \<le> max_len \<and> max_len < int (length text)
         \<and> (\<forall>i. int i < max_len \<longrightarrow> (text ! i = NL \<longleftrightarrow> i = 0))
         \<longrightarrow> (\<exists>rest. chunk_text text max_len = Some ([] # rest)))
   \<and> (\<forall>line max_len.
         1 \<le> max_len \<and> max_len < int (length line) \<and> NL \<notin> set line
         \<longrightarrow> (\<exists>rest. chunk_text (NL # line) max_len = Some ([] # rest)))"
proof -
  have general: "\<exists>rest. chunk_text s max_len = Some ([] # rest)"
    if pos: "1 \<le> max_len" and long: "max_len < int (length s)"
      and only: "\<forall>i. int i < max_len \<longrightarrow> (s ! i = NL \<longleftrightarrow> i = 0)"
    for s max_len
  proof -
    have "s ! 0 = NL" using pos only by simp
    then obtain xs where xs: "s = NL # xs"
      using pos long by (cases s) auto
    have len: "adjust_index (length s) max_len = nat max_len"
      using pos long by (simp add: adjust_index_def)
    have "NL \<notin> set (tl (take (nat max_len) s))"
    proof
      assume "NL \<in> set (tl (take (nat max_len) s))"
      then obtain j where j: "j < length (tl (take (nat max_len) s))"
        and at: "tl (take (nat max_len) s) ! j = NL"
        by (auto simp: in_set_conv_nth)
      have "int (Suc j) < max_len" using j long by simp
      moreover have "s ! Suc j = NL"
        using at j by (simp add: nth_tl)
      ultimately show False using only by blast
    qed
    moreover have "take (nat max_len) s = NL # tl (take (nat max_len) s)"
      using xs pos by (cases "nat max_len") auto
    ultimately have "rfind_char NL (slice_to s max_len) = 0"
      unfolding slice_to_def len by (subst rfind_char_zero) metis
    then have sp: "split_point s max_len = 0"
      by (simp add: split_point_def rfind_def)
    have ne: "s \<noteq> []" using xs by simp
    have big: "\<not> int (length s) \<le> max_len" using long by simp
    from chunk_loop_spec [OF pos, of "lstrip_nl (slice_from s 0)" "[slice_to s 0]"]
    obtain cs where "chunk_loop (lstrip_nl (slice_from s 0)) max_len [slice_to s 0]
        = Some ([slice_to s 0] @ cs)" by blast
    then have "chunk_text s max_len = Some ([] # cs)"
      unfolding chunk_text_def using chunk_loop_step [OF ne big, of "[]"] sp
      by (simp add: slice_to_def adjust_index_def)
    then show ?thesis by blast
  qed
  have line: "\<exists>rest. chunk_text (NL # line) max_len = Some ([] # rest)"
    if pos: "1 \<le> max_len" and long: "max_len < int (length line)" and no: "NL \<notin> set line"
    for line max_len
  proof (rule general [OF pos])
    show "max_len < int (length (NL # line))" using long by simp
    show "\<forall>i. int i < max_len \<longrightarrow> ((NL # line) ! i = NL \<longleftrightarrow> i = 0)"
    proof (intro allI impI)
      fix i assume i: "int i < max_len"
      show "(NL # line) ! i = NL \<longleftrightarrow> i = 0"
      proof (cases i)
        case 0
        then show ?thesis by simp
      next
        case (Suc k)
        then have "k < length line" using i long by simp
        then have "line ! k \<in> set line" by simp
        with no Suc show ?thesis by auto
      qed
    qed
  qed
  have "\<exists>rest. chunk_text (NL # ''abc'') 2 = Some ([] # rest)"
    by (rule line) (simp_all add: NL_def)
  then have "\<exists>text max_len chunks. 1 \<le> max_len \<and> chunk_text text max_len = Some chunks
      \<and> [] \<in> set chunks"
    by (intro exI [of _ "NL # ''abc''"] exI [of _ 2]) auto
  with general line show ?thesis by blast
qed

theorem chunk_text_empty_chunk_witness:
  "(1::int) \<le> 2 \<and> 2 < int (length (NL # ''abc'')) \<and> NL \<notin> set ''abc''
   \<and> (\<exists>rest. chunk_text (NL # ''abc'') 2 = Some ([] # rest))"
proof -
  have "(1::int) \<le> 2 \<and> 2 < int (length ''abc'') \<and> NL \<notin> set ''abc''"
    by (simp add: NL_def)
  with chunk_text_empty_chunk show ?thesis by simp
qed

lemma empty_first_chunk_example:
  "chunk_text (NL # ''abc'') 2 = Some ['''', ''ab'', ''c'']"
  by code_simp

text \<open>
  Claim C10.  For every input text and every \<open>max_len \<ge> 1\<close> the chunker terminates: an
  iteration on a non-empty remaining text either appends it as the final chunk and stops, or
  goes on with a strictly shorter remaining text.  For \<open>max_len = 0\<close> this is not so: on the
  text \<open>"a"\<close> the loop never ends.
\<close>

theorem chunk_text_terminates:
  "(\<forall>text max_len. 1 \<le> max_len \<longrightarrow> (\<exists>chunks. chunk_text text max_len = Some chunks))
   \<and> (\<forall>remaining max_len chunks. 1 \<le> max_len \<and> remaining \<noteq> [] \<longrightarrow>
         (if int (length remaining) \<le> max_len
          then chunk_loop remaining max_len chunks = Some (chunks @ [remaining])
          else chunk_loop remaining max_len chunks =
                 chunk_loop (lstrip_nl (slice_from remaining (split_point remaining max_len))) max_len
                   (chunks @ [slice_to remaining (split_point remaining max_len)])
               \<and> length (lstrip_nl (slice_from remaining (split_point remaining max_len)))
                   < length remaining))
   \<and> chunk_text ''a'' 0 = None"
proof (intro conjI allI impI)
  fix s :: string and max_len :: int
  assume "1 \<le> max_len"
  from chunk_loop_spec [OF this, of s "[]"]
  show "\<exists>chunks. chunk_text s max_len = Some chunks"
    unfolding chunk_text_def by auto
next
  fix remaining :: string and max_len :: int and chunks :: "string list"
  assume a: "1 \<le> max_len \<and> remaining \<noteq> []"
  show "if int (length remaining) \<le> max_len
          then chunk_loop remaining max_len chunks = Some (chunks @ [remaining])
          else chunk_loop remaining max_len chunks =
                 chunk_loop (lstrip_nl (slice_from remaining (split_point remaining max_len))) max_len
                   (chunks @ [slice_to remaining (split_point remaining max_len)])
               \<and> length (lstrip_nl (slice_from remaining (split_point remaining max_len)))
                   < length remaining"
  proof (cases "int (length remaining) \<le> max_len")
    case True
    then have "chunk_loop remaining max_len chunks = Some (chunks @ [remaining])"
      using a by (subst chunk_loop.simps) simp
    with True show ?thesis by simp
  next
    case False
    then show ?thesis
      using a chunk_loop_step [of remaining max_len chunks] step_shorter [of max_len remaining]
      by simp
  qed
next
  show "chunk_text ''a'' 0 = None"
    unfolding chunk_text_def by (rule chunk_loop_zero_diverges) (simp_all add: NL_def)
qed

theorem chunk_text_terminates_witness:
  "(1::int) \<le> 2 \<and> ''abcde'' \<noteq> []
   \<and> (\<exists>chunks. chunk_text ''abcde'' 2 = Some chunks)
   \<and> chunk_loop ''abcde'' 2 [] = chunk_loop ''cde'' 2 [''ab'']
   \<and> length ''cde'' < length ''abcde''"
proof -
  have sp: "split_point ''abcde'' 2 = 2" by code_simp
  have rest: "lstrip_nl (slice_from ''abcde'' 2) = ''cde''" by code_simp
  have chunk: "slice_to ''abcde'' 2 = ''ab''" by code_simp
  have "(1::int) \<le> 2 \<and> ''abcde'' \<noteq> []" by simp
  with chunk_text_terminates
  have "\<exists>chunks. chunk_text ''abcde'' 2 = Some chunks"
    and "if int (length ''abcde'') \<le> 2
          then chunk_loop ''abcde'' 2 [] = Some ([] @ [''abcde''])
          else chunk_loop ''abcde'' 2 [] =
                 chunk_loop (lstrip_nl (slice_from ''abcde'' (split_point ''abcde'' 2))) 2
                   ([] @ [slice_to ''abcde'' (split_point ''abcde'' 2)])
               \<and> length (lstrip_nl (slice_from ''abcde'' (split_point ''abcde'' 2)))
                   < length ''abcde''"
    by blast+
  then show ?thesis by (simp add: sp rest chunk)
qed

section \<open>Properties of the extractor\<close>

subsection \<open>Comparison of floats\<close>

lemma py_ge_refl: "x \<noteq> NaN \<Longrightarrow> py_ge x x"
  by (simp add: py_ge_def)

lemma py_ge_trans: "py_ge a b \<Longrightarrow> py_ge b c \<Longrightarrow> py_ge a c"
  by (auto simp: py_ge_def)

lemma py_gt_ge: "py_gt a b \<Longrightarrow> py_ge a b"
  by (auto simp: py_gt_def py_ge_def)

lemma not_py_gt_ge: "\<not> py_gt a b \<Longrightarrow> a \<noteq> NaN \<Longrightarrow> b \<noteq> NaN \<Longrightarrow> py_ge b a"
  by (auto simp: py_gt_def py_ge_def)

subsection \<open>Conversion of small integers\<close>

lemma bit_length_bound: "0 \<le> a \<Longrightarrow> a < 2 ^ n \<Longrightarrow> bit_length a \<le> n"
proof (induction n arbitrary: a)
  case 0
  then have "a = 0" by simp
  then show ?case by (simp add: bit_length.simps)
next
  case (Suc n)
  show ?case
  proof (cases "a \<le> 0")
    case True
    then show ?thesis by (simp add: bit_length.simps)
  next
    case False
    have "a div 2 < 2 ^ n" using Suc.prems by simp
    moreover have "0 \<le> a div 2" using Suc.prems by simp
    ultimately have "bit_length (a div 2) \<le> n" by (rule Suc.IH [rotated])
    with False show ?thesis by (subst bit_length.simps) simp
  qed
qed

lemma float_of_int_exact:
  assumes "\<bar>i\<bar> < 2 ^ 53"
  shows "float_of_int i = Inr (Finite (of_int i))"
proof -
  have "bit_length \<bar>i\<bar> \<le> 53"
    using assms by (intro bit_length_bound) simp_all
  then show ?thesis by (simp add: float_of_int_def)
qed

subsection \<open>One record, the loop, and the maximum\<close>

lemma date_trichotomy: "\<not> date_less a b \<Longrightarrow> a = b \<or> date_less b a"
  by (cases a; cases b) (auto simp: date_less_def)

lemma normalize_recent:
  assumes "normalize f cutoff = Inr (Some r)"
  shows "\<exists>d. strptime_ymd (filed_at_date r) = Some d \<and> (d = cutoff \<or> date_less cutoff d)"
  using assms
  by (auto simp: normalize_def Let_def split: option.splits if_splits sum.splits
      dest: date_trichotomy)

lemma normalize_percent:
  assumes "normalize f cutoff = Inr (Some r)"
  shows "\<exists>percents. collect_percents (get_owners f) [] = Inr percents
           \<and> percent_owned r = headline_percent percents"
  using assms
  by (auto simp: normalize_def Let_def split: option.splits if_splits sum.splits)

lemma normalize_raises:
  assumes "normalize f cutoff = Inl ex"
  shows "collect_percents (get_owners f) [] = Inl ex"
  using assms
  by (auto simp: normalize_def Let_def split: option.splits if_splits sum.splits)

lemma normalize_returns:
  assumes "collect_percents (get_owners f) [] = Inr percents"
  shows "\<exists>x. normalize f cutoff = Inr x"
  using assms
  by (auto simp: normalize_def Let_def split: option.splits if_splits sum.splits)

lemma extract_loop_length:
  assumes "extract_loop filings cutoff max_filings results = Inr out"
    and "int (length results) \<le> max_filings"
  shows "int (length out) \<le> max_filings"
  using assms
proof (induction filings arbitrary: results)
  case Nil
  then show ?case by simp
next
  case (Cons f filings)
  show ?case
  proof (cases "int (length results) \<ge> max_filings")
    case True
    with Cons.prems show ?thesis by simp
  next
    case False
    then have "int (length (results @ [r])) \<le> max_filings" for r by simp
    with False Cons show ?thesis by (auto split: sum.splits option.splits)
  qed
qed

lemma extract_loop_set:
  assumes "extract_loop filings cutoff max_filings results = Inr out"
  shows "set out \<subseteq> set results \<union> {r. \<exists>f\<in>set filings. normalize f cutoff = Inr (Some r)}"
  using assms
proof (induction filings arbitrary: results)
  case Nil
  then show ?case by auto
next
  case (Cons f filings)
  show ?case
  proof (cases "int (length results) \<ge> max_filings")
    case True
    with Cons.prems show ?thesis by auto
  next
    case False
    show ?thesis
    proof (cases "normalize f cutoff")
      case (Inl ex)
      with False Cons.prems show ?thesis by simp
    next
      case (Inr x)
      show ?thesis
      proof (cases x)
        case None
        with Inr False Cons.prems Cons.IH [of results] show ?thesis by auto
      next
        case (Some r)
        with Inr False Cons.prems Cons.IH [of "results @ [r]"] show ?thesis by auto
      qed
    qed
  qed
qed

lemma extract_loop_raises:
  assumes "extract_loop filings cutoff max_filings results = Inl ex"
  shows "\<exists>f\<in>set filings. normalize f cutoff = Inl ex"
  using assms
  by (induction filings arbitrary: results) (auto split: if_splits sum.splits option.splits)

lemma collect_percents_raises:
  assumes "collect_percents ows acc = Inl ex"
  shows "ex = OverflowError
         \<and> (\<exists>ow\<in>set ows. \<exists>p i. dict_get (amountAsPercent ow) = Some p
               \<and> as_int_or_float p = Some (PyInt i) \<and> float_of_int i = Inl OverflowError)"
  using assms
proof (induction ows arbitrary: acc)
  case Nil
  then show ?case by simp
next
  case (Cons ow ows)
  show ?case
  proof (cases "dict_get (amountAsPercent ow)")
    case None
    with Cons show ?thesis by auto
  next
    case (Some p)
    show ?thesis
    proof (cases "as_int_or_float p")
      case None
      with Some Cons show ?thesis by auto
    next
      case num: (Some n)
      show ?thesis
      proof (cases "to_float n")
        case (Inl ex')
        then obtain i where "n = PyInt i" and "float_of_int i = Inl ex'"
          by (cases n) auto
        moreover from this have "ex' = OverflowError"
          by (auto simp: float_of_int_def Let_def split: if_splits)
        moreover have "ex = ex'" using Cons.prems Some num Inl by simp
        ultimately show ?thesis using Some num by auto
      next
        case (Inr x)
        with Some num Cons.prems Cons.IH [of "acc @ [x]"] show ?thesis by auto
      qed
    qed
  qed
qed

lemma collect_percents_values:
  assumes "collect_percents ows acc = Inr out"
  shows "\<exists>vals. out = acc @ vals
           \<and> set vals = {x. \<exists>ow\<in>set ows. \<exists>p n. dict_get (amountAsPercent ow) = Some p
                              \<and> as_int_or_float p = Some n \<and> to_float n = Inr x}"
  using assms
proof (induction ows arbitrary: acc out)
  case Nil
  then show ?case by simp
next
  case (Cons ow ows)
  show ?case
  proof (cases "dict_get (amountAsPercent ow)")
    case None
    with Cons.prems have "collect_percents ows acc = Inr out" by simp
    from Cons.IH [OF this] None show ?thesis by auto
  next
    case (Some p)
    show ?thesis
    proof (cases "as_int_or_float p")
      case None
      with Some Cons.prems have "collect_percents ows acc = Inr out" by simp
      from Cons.IH [OF this] Some None show ?thesis by auto
    next
      case num: (Some n)
      show ?thesis
      proof (cases "to_float n")
        case (Inl ex)
        with Some num Cons.prems show ?thesis by simp
      next
        case (Inr x)
        with Some num Cons.prems have "collect_percents ows (acc @ [x]) = Inr out" by simp
        from Cons.IH [OF this] obtain vals where
          out: "out = (acc @ [x]) @ vals"
          and vals: "set vals = {x. \<exists>ow\<in>set ows. \<exists>p n. dict_get (amountAsPercent ow) = Some p
                              \<and> as_int_or_float p = Some n \<and> to_float n = Inr x}"
          by blast
        have "set (x # vals) = {y. \<exists>ow'\<in>set (ow # ows). \<exists>p n.
                 dict_get (amountAsPercent ow') = Some p
                 \<and> as_int_or_float p = Some n \<and> to_float n = Inr y}"
          using vals Some num Inr by auto
        with out show ?thesis by (intro exI [of _ "x # vals"]) simp
      qed
    qed
  qed
qed

lemma max_from_member: "max_from m xs \<in> set (m # xs)"
  by (induction xs arbitrary: m) (auto split: if_splits)

lemma max_from_upper:
  assumes "NaN \<notin> set (m # xs)"
  shows "\<forall>x\<in>set (m # xs). py_ge (max_from m xs) x"
  using assms
proof (induction xs arbitrary: m)
  case Nil
  then show ?case by (simp add: py_ge_refl)
next
  case (Cons y ys)
  define m' where "m' = (if py_gt y m then y else m)"
  have nan: "NaN \<notin> set (m' # ys)" using Cons.prems by (auto simp: m'_def)
  have top: "\<forall>x\<in>set (m' # ys). py_ge (max_from m' ys) x" by (rule Cons.IH [OF nan])
  then have m': "py_ge (max_from m' ys) m'" by simp
  have "py_ge m' m \<and> py_ge m' y"
    using Cons.prems by (auto simp: m'_def py_gt_ge py_ge_refl not_py_gt_ge)
  then have "py_ge (max_from m' ys) m" and "py_ge (max_from m' ys) y"
    using m' py_ge_trans by blast+
  with top show ?case by (simp add: m'_def)
qed

lemma headline_percent_max:
  assumes "NaN \<notin> set xs"
  shows "(headline_percent xs = None \<longleftrightarrow> xs = [])
         \<and> (\<forall>m. headline_percent xs = Some m \<longrightarrow> m \<in> set xs \<and> (\<forall>x\<in>set xs. py_ge m x))"
proof (cases xs)
  case Nil
  then show ?thesis by simp
next
  case (Cons x xs')
  with assms max_from_member [of x xs'] max_from_upper [of x xs'] show ?thesis by auto
qed

lemma collect_percents_converts:
  assumes "collect_percents ows acc = Inr out" and "ow \<in> set ows"
    and "dict_get (amountAsPercent ow) = Some p" and "as_int_or_float p = Some n"
  shows "\<exists>x. to_float n = Inr x"
  using assms
proof (induction ows arbitrary: acc)
  case Nil
  then show ?case by simp
next
  case (Cons ow' ows)
  show ?case
  proof (cases "ow = ow'")
    case True
    with Cons.prems show ?thesis by (cases "to_float n") auto
  next
    case False
    with Cons.prems have "ow \<in> set ows" by simp
    moreover obtain acc' where "collect_percents ows acc' = Inr out"
      using Cons.prems(1) by (auto split: option.splits sum.splits)
    ultimately show ?thesis using Cons.IH Cons.prems(3,4) by blast
  qed
qed

lemma float_of_int_not_nan: "float_of_int i \<noteq> Inr NaN"
  by (simp add: float_of_int_def Let_def)

subsection \<open>The claims about the extractor\<close>

lemma sample_first:
  "normalize (hd sample_filings) sample_cutoff =
     Inr (Some \<lparr>form = Some ''SC 13G'', filed_at_date = ''2025-11-24'',
                 issuer = Some ''ACME Corp'', percent_owned = Some (Finite 7)\<rparr>)"
  by (simp add: sample_filings_def sample_cutoff_def normalize_def
      get_owners_def before_T_def strptime_ymd_def make_date_def days_in_month_def is_leap_def
      between_def digit_def date_less_def float_of_int_exact py_gt_def)

lemma sample_run:
  "extract_filings sample_filings sample_cutoff 2 =
     Inr [\<lparr>form = Some ''SC 13G'', filed_at_date = ''2025-11-24'', issuer = Some ''ACME Corp'',
            percent_owned = Some (Finite 7)\<rparr>,
          \<lparr>form = Some '''', filed_at_date = ''2025-10-01'', issuer = None,
            percent_owned = None\<rparr>]"
  by (simp add: extract_filings_def sample_filings_def sample_cutoff_def normalize_def
      get_owners_def before_T_def strptime_ymd_def make_date_def days_in_month_def is_leap_def
      between_def digit_def date_less_def float_of_int_exact py_gt_def)

text \<open>
  Claim C1.  For every list of raw filings, every cutoff date and every \<open>max_filings \<ge> 0\<close>,
  the extractor returns at most \<open>max_filings\<close> filings, and the date string of each of them
  parses to a date that is the cutoff date or later.  The extractor returns a list unless an
  owner percentage is an integer too large for a float; it does return one when every
  integer percentage converts.
\<close>

theorem extract_filings_recent_bounded:
  assumes "0 \<le> max_filings"
  shows "(case extract_filings filings cutoff max_filings of
            Inl ex \<Rightarrow> ex = OverflowError
          | Inr results \<Rightarrow>
              int (length results) \<le> max_filings
              \<and> (\<forall>r\<in>set results.
                    \<exists>d. strptime_ymd (filed_at_date r) = Some d
                         \<and> (d = cutoff \<or> date_less cutoff d)))
         \<and> ((\<forall>f\<in>set filings. \<forall>ow\<in>set (get_owners f). \<forall>i.
                dict_get (amountAsPercent ow) = Some (JInt i)
                \<longrightarrow> float_of_int i \<noteq> Inl OverflowError)
              \<longrightarrow> (\<exists>results. extract_filings filings cutoff max_filings = Inr results))"
proof (intro conjI impI)
  show "case extract_filings filings cutoff max_filings of
            Inl ex \<Rightarrow> ex = OverflowError
          | Inr results \<Rightarrow>
              int (length results) \<le> max_filings
              \<and> (\<forall>r\<in>set results.
                    \<exists>d. strptime_ymd (filed_at_date r) = Some d
                         \<and> (d = cutoff \<or> date_less cutoff d))"
  proof (cases "extract_filings filings cutoff max_filings")
    case (Inl ex)
    then obtain f where "normalize f cutoff = Inl ex"
      unfolding extract_filings_def using extract_loop_raises by blast
    then have "ex = OverflowError"
      using normalize_raises collect_percents_raises by blast
    with Inl show ?thesis by simp
  next
    case (Inr results)
    then have run: "extract_loop filings cutoff max_filings [] = Inr results"
      by (simp add: extract_filings_def)
    have "int (length results) \<le> max_filings"
      using extract_loop_length [OF run] assms by simp
    moreover have "\<exists>d. strptime_ymd (filed_at_date r) = Some d
                         \<and> (d = cutoff \<or> date_less cutoff d)" if mem: "r \<in> set results" for r
    proof -
      obtain f where "normalize f cutoff = Inr (Some r)"
        using extract_loop_set [OF run] mem by fastforce
      then show ?thesis by (rule normalize_recent)
    qed
    ultimately show ?thesis using Inr by simp
  qed
next
  assume conv: "\<forall>f\<in>set filings. \<forall>ow\<in>set (get_owners f). \<forall>i.
      dict_get (amountAsPercent ow) = Some (JInt i) \<longrightarrow> float_of_int i \<noteq> Inl OverflowError"
  show "\<exists>results. extract_filings filings cutoff max_filings = Inr results"
  proof (cases "extract_filings filings cutoff max_filings")
    case (Inl ex)
    then obtain f where f: "f \<in> set filings" and "normalize f cutoff = Inl ex"
      unfolding extract_filings_def using extract_loop_raises by blast
    then have "collect_percents (get_owners f) [] = Inl ex"
      by (simp add: normalize_raises)
    then obtain ow p i where "ow \<in> set (get_owners f)"
      and p: "dict_get (amountAsPercent ow) = Some p"
      and n: "as_int_or_float p = Some (PyInt i)"
      and over: "float_of_int i = Inl OverflowError"
      using collect_percents_raises by blast
    have "p = JInt i"
    proof (cases p)
      case (JBool b)
      with n over show ?thesis
        by (auto simp: float_of_int_exact split: if_splits)
    qed (use n in auto)
    with conv f \<open>ow \<in> set (get_owners f)\<close> p over show ?thesis by blast
  next
    case (Inr results)
    then show ?thesis by blast
  qed
qed

theorem extract_filings_recent_bounded_witness:
  "(0::int) \<le> 2
   \<and> extract_filings sample_filings sample_cutoff 2 =
       Inr [\<lparr>form = Some ''SC 13G'', filed_at_date = ''2025-11-24'', issuer = Some ''ACME Corp'',
              percent_owned = Some (Finite 7)\<rparr>,
            \<lparr>form = Some '''', filed_at_date = ''2025-10-01'', issuer = None,
              percent_owned = None\<rparr>]
   \<and> (\<exists>d. strptime_ymd ''2025-10-01'' = Some d
         \<and> (d = sample_cutoff \<or> date_less sample_cutoff d))"
proof -
  from extract_filings_recent_bounded
    [where max_filings = 2 and filings = sample_filings and cutoff = sample_cutoff]
  have "case extract_filings sample_filings sample_cutoff 2 of
            Inl ex \<Rightarrow> ex = OverflowError
          | Inr results \<Rightarrow>
              int (length results) \<le> 2
              \<and> (\<forall>r\<in>set results.
                    \<exists>d. strptime_ymd (filed_at_date r) = Some d
                         \<and> (d = sample_cutoff \<or> date_less sample_cutoff d))"
    by simp
  then show ?thesis by (simp add: sample_run)
qed

text \<open>
  Claim C2, as stated: \<open>percent_owned\<close> is the maximum of the numeric owner percentages,
  and \<open>None\<close> exactly when no owner entry carries a numeric value.  The code stores
  \<open>float(p)\<close>, so the integer \<open>9007199254740993\<close> gives \<open>9007199254740992.0\<close>, which is none
  of the owner percentages.  Python's \<open>max\<close> keeps a leading NaN: the percentages NaN and
  \<open>5.0\<close> give NaN, which is not greater than or equal to \<open>5.0\<close>.  And a JSON \<open>true\<close> passes
  the \<open>isinstance\<close> test: it gives \<open>1.0\<close> although no owner entry carries a number.
\<close>

theorem percent_owned_counterexample:
  "map_sum id (map_option percent_owned) (normalize (filing_with [JInt 9007199254740993]) sample_cutoff)
     = Inr (Some (Some (Finite 9007199254740992)))
   \<and> (9007199254740992 :: real) \<noteq> of_int 9007199254740993
   \<and> map_sum id (map_option percent_owned)
        (normalize (filing_with [JFloat NaN, JFloat (Finite 5)]) sample_cutoff)
     = Inr (Some (Some NaN))
   \<and> \<not> py_ge NaN (Finite 5)
   \<and> map_sum id (map_option percent_owned) (normalize (filing_with [JBool True]) sample_cutoff)
     = Inr (Some (Some (Finite 1)))
   \<and> \<not> (\<exists>ow\<in>set (get_owners (filing_with [JBool True])). \<exists>i x.
           dict_get (amountAsPercent ow) = Some (JInt i)
           \<or> dict_get (amountAsPercent ow) = Some (JFloat x))"
proof -
  have big: "float_of_int 9007199254740993 = Inr (Finite 9007199254740992)"
    by code_simp
  show ?thesis
    by (simp add: filing_with_def sample_cutoff_def normalize_def
        get_owners_def before_T_def strptime_ymd_def make_date_def days_in_month_def is_leap_def
        between_def digit_def date_less_def float_of_int_exact py_gt_def py_ge_def big)
qed

text \<open>
  Claim C2, amended: every filing the extractor returns is the normalization of one of the
  raw records; and for every raw record that is normalized and none of whose owner
  percentages is a boolean or a NaN, \<open>percent_owned\<close> is \<open>None\<close> exactly when no owner entry
  carries a JSON number, and otherwise it is the maximum of the owner percentages converted
  to float (an integer is rounded to the nearest double): it is one of these floats and it
  is greater than or equal to each of them.
\<close>

theorem percent_owned_is_maximum:
  "(\<forall>results. extract_filings filings cutoff max_filings = Inr results \<longrightarrow>
      (\<forall>r\<in>set results. \<exists>f\<in>set filings. normalize f cutoff = Inr (Some r)))
   \<and> (\<forall>f r.
         normalize f cutoff = Inr (Some r)
         \<and> (\<forall>ow\<in>set (get_owners f).
               dict_get (amountAsPercent ow) \<noteq> Some (JFloat NaN)
               \<and> (\<forall>b. dict_get (amountAsPercent ow) \<noteq> Some (JBool b)))
         \<longrightarrow>
         (let floats = {x. \<exists>ow\<in>set (get_owners f).
                            (\<exists>i. dict_get (amountAsPercent ow) = Some (JInt i)
                                  \<and> float_of_int i = Inr x)
                            \<or> dict_get (amountAsPercent ow) = Some (JFloat x)}
          in (percent_owned r = None \<longleftrightarrow>
                \<not> (\<exists>ow\<in>set (get_owners f). \<exists>i x.
                      dict_get (amountAsPercent ow) = Some (JInt i)
                      \<or> dict_get (amountAsPercent ow) = Some (JFloat x)))
             \<and> (\<forall>m. percent_owned r = Some m \<longrightarrow>
                    m \<in> floats \<and> (\<forall>x\<in>floats. py_ge m x))))"
proof (intro conjI allI impI)
  fix results
  assume "extract_filings filings cutoff max_filings = Inr results"
  then show "\<forall>r\<in>set results. \<exists>f\<in>set filings. normalize f cutoff = Inr (Some r)"
    unfolding extract_filings_def using extract_loop_set by fastforce
next
  fix f r
  assume a: "normalize f cutoff = Inr (Some r)
         \<and> (\<forall>ow\<in>set (get_owners f).
               dict_get (amountAsPercent ow) \<noteq> Some (JFloat NaN)
               \<and> (\<forall>b. dict_get (amountAsPercent ow) \<noteq> Some (JBool b)))"
  define floats where "floats = {x. \<exists>ow\<in>set (get_owners f).
                            (\<exists>i. dict_get (amountAsPercent ow) = Some (JInt i)
                                  \<and> float_of_int i = Inr x)
                            \<or> dict_get (amountAsPercent ow) = Some (JFloat x)}"
  obtain percents where run: "collect_percents (get_owners f) [] = Inr percents"
    and head: "percent_owned r = headline_percent percents"
    using a normalize_percent by blast
  have code: "set percents = {x. \<exists>ow\<in>set (get_owners f). \<exists>p n.
        dict_get (amountAsPercent ow) = Some p \<and> as_int_or_float p = Some n \<and> to_float n = Inr x}"
    using collect_percents_values [OF run] by auto
  have set: "set percents = floats"
  proof (rule set_eqI)
    fix x
    show "x \<in> set percents \<longleftrightarrow> x \<in> floats"
    proof
      assume "x \<in> set percents"
      then obtain ow p n where ow: "ow \<in> set (get_owners f)"
        and p: "dict_get (amountAsPercent ow) = Some p"
        and n: "as_int_or_float p = Some n" and x: "to_float n = Inr x"
        unfolding code by blast
      have "\<forall>b. p \<noteq> JBool b" using a ow p by auto
      then have "(\<exists>i. p = JInt i \<and> float_of_int i = Inr x) \<or> p = JFloat x"
        using n x by (cases p) auto
      then show "x \<in> floats" unfolding floats_def using ow p by auto
    next
      assume "x \<in> floats"
      then obtain ow where ow: "ow \<in> set (get_owners f)"
        and or: "(\<exists>i. dict_get (amountAsPercent ow) = Some (JInt i) \<and> float_of_int i = Inr x)
                 \<or> dict_get (amountAsPercent ow) = Some (JFloat x)"
        unfolding floats_def by blast
      from or have "\<exists>p n. dict_get (amountAsPercent ow) = Some p
          \<and> as_int_or_float p = Some n \<and> to_float n = Inr x"
      proof
        assume "\<exists>i. dict_get (amountAsPercent ow) = Some (JInt i) \<and> float_of_int i = Inr x"
        then obtain i where "dict_get (amountAsPercent ow) = Some (JInt i)"
          and "float_of_int i = Inr x" by blast
        then show ?thesis by (intro exI [of _ "JInt i"] exI [of _ "PyInt i"]) simp
      next
        assume "dict_get (amountAsPercent ow) = Some (JFloat x)"
        then show ?thesis by (intro exI [of _ "JFloat x"] exI [of _ "PyFloat x"]) simp
      qed
      with ow show "x \<in> set percents" unfolding code by blast
    qed
  qed
  have nan: "NaN \<notin> set percents"
    unfolding set floats_def using a float_of_int_not_nan by auto
  have none: "percents = [] \<longleftrightarrow>
      \<not> (\<exists>ow\<in>set (get_owners f). \<exists>i x.
            dict_get (amountAsPercent ow) = Some (JInt i)
            \<or> dict_get (amountAsPercent ow) = Some (JFloat x))"
  proof
    assume "percents = []"
    then have empty: "floats = {}" using set by simp
    show "\<not> (\<exists>ow\<in>set (get_owners f). \<exists>i x.
            dict_get (amountAsPercent ow) = Some (JInt i)
            \<or> dict_get (amountAsPercent ow) = Some (JFloat x))"
    proof
      assume "\<exists>ow\<in>set (get_owners f). \<exists>i x.
            dict_get (amountAsPercent ow) = Some (JInt i)
            \<or> dict_get (amountAsPercent ow) = Some (JFloat x)"
      then obtain ow i x where ow: "ow \<in> set (get_owners f)"
        and or: "dict_get (amountAsPercent ow) = Some (JInt i)
            \<or> dict_get (amountAsPercent ow) = Some (JFloat x)"
        by blast
      from or show False
      proof
        assume int: "dict_get (amountAsPercent ow) = Some (JInt i)"
        then obtain y where "to_float (PyInt i) = Inr y"
          using collect_percents_converts [OF run ow, of "JInt i" "PyInt i"] by auto
        then have "y \<in> floats" unfolding floats_def using ow int by auto
        with empty show False by simp
      next
        assume "dict_get (amountAsPercent ow) = Some (JFloat x)"
        then have "x \<in> floats" unfolding floats_def using ow by auto
        with empty show False by simp
      qed
    qed
  next
    assume "\<not> (\<exists>ow\<in>set (get_owners f). \<exists>i x.
            dict_get (amountAsPercent ow) = Some (JInt i)
            \<or> dict_get (amountAsPercent ow) = Some (JFloat x))"
    then have "floats = {}" unfolding floats_def by blast
    with set show "percents = []" by simp
  qed
  from headline_percent_max [OF nan] head set none
  have "(percent_owned r = None \<longleftrightarrow>
                \<not> (\<exists>ow\<in>set (get_owners f). \<exists>i x.
                      dict_get (amountAsPercent ow) = Some (JInt i)
                      \<or> dict_get (amountAsPercent ow) = Some (JFloat x)))
             \<and> (\<forall>m. percent_owned r = Some m \<longrightarrow>
                    m \<in> floats \<and> (\<forall>x\<in>floats. py_ge m x))"
    by simp
  then show "let floats = {x. \<exists>ow\<in>set (get_owners f).
                            (\<exists>i. dict_get (amountAsPercent ow) = Some (JInt i)
                                  \<and> float_of_int i = Inr x)
                            \<or> dict_get (amountAsPercent ow) = Some (JFloat x)}
          in (percent_owned r = None \<longleftrightarrow>
                \<not> (\<exists>ow\<in>set (get_owners f). \<exists>i x.
                      dict_get (amountAsPercent ow) = Some (JInt i)
                      \<or> dict_get (amountAsPercent ow) = Some (JFloat x)))
             \<and> (\<forall>m. percent_owned r = Some m \<longrightarrow>
                    m \<in> floats \<and> (\<forall>x\<in>floats. py_ge m x))"
    unfolding floats_def Let_def .
qed

theorem percent_owned_is_maximum_witness:
  "normalize (hd sample_filings) sample_cutoff =
     Inr (Some \<lparr>form = Some ''SC 13G'', filed_at_date = ''2025-11-24'',
                 issuer = Some ''ACME Corp'', percent_owned = Some (Finite 7)\<rparr>)
   \<and> \<not> (\<exists>ow\<in>set (get_owners (hd sample_filings)).
           dict_get (amountAsPercent ow) = Some (JFloat NaN)
           \<or> (\<exists>b. dict_get (amountAsPercent ow) = Some (JBool b)))
   \<and> Finite 7 \<in> {x. \<exists>ow\<in>set (get_owners (hd sample_filings)).
                      (\<exists>i. dict_get (amountAsPercent ow) = Some (JInt i)
                            \<and> float_of_int i = Inr x)
                      \<or> dict_get (amountAsPercent ow) = Some (JFloat x)}
   \<and> \<not> (\<exists>x\<in>{x. \<exists>ow\<in>set (get_owners (hd sample_filings)).
                      (\<exists>i. dict_get (amountAsPercent ow) = Some (JInt i)
                            \<and> float_of_int i = Inr x)
                      \<or> dict_get (amountAsPercent ow) = Some (JFloat x)}.
           \<not> py_ge (Finite 7) x)"
proof -
  have clean: "\<forall>ow\<in>set (get_owners (hd sample_filings)).
      dict_get (amountAsPercent ow) \<noteq> Some (JFloat NaN)
      \<and> (\<forall>b. dict_get (amountAsPercent ow) \<noteq> Some (JBool b))"
    by (simp add: sample_filings_def get_owners_def)
  from percent_owned_is_maximum
    [where filings = sample_filings and cutoff = sample_cutoff and max_filings = 2]
    sample_first clean
  have "let floats = {x. \<exists>ow\<in>set (get_owners (hd sample_filings)).
                      (\<exists>i. dict_get (amountAsPercent ow) = Some (JInt i)
                            \<and> float_of_int i = Inr x)
                      \<or> dict_get (amountAsPercent ow) = Some (JFloat x)}
        in (Some (Finite 7) = None \<longleftrightarrow>
                \<not> (\<exists>ow\<in>set (get_owners (hd sample_filings)). \<exists>i x.
                      dict_get (amountAsPercent ow) = Some (JInt i)
                      \<or> dict_get (amountAsPercent ow) = Some (JFloat x)))
             \<and> (\<forall>m. Some (Finite 7) = Some m \<longrightarrow>
                    m \<in> floats \<and> (\<forall>x\<in>floats. py_ge m x))"
    by fastforce
  then have "Finite 7 \<in> {x. \<exists>ow\<in>set (get_owners (hd sample_filings)).
                      (\<exists>i. dict_get (amountAsPercent ow) = Some (JInt i)
                            \<and> float_of_int i = Inr x)
                      \<or> dict_get (amountAsPercent ow) = Some (JFloat x)}"
    and "\<forall>x\<in>{x. \<exists>ow\<in>set (get_owners (hd sample_filings)).
                      (\<exists>i. dict_get (amountAsPercent ow) = Some (JInt i)
                            \<and> float_of_int i = Inr x)
                      \<or> dict_get (amountAsPercent ow) = Some (JFloat x)}.
           py_ge (Finite 7) x"
    unfolding Let_def by blast+
  with sample_first clean show ?thesis by blast
qed

section \<open>Properties of the formatter and of the pipeline\<close>

subsection \<open>The loops as maps\<close>

lemma filing_rows_map: "filing_rows fmt filings lines = lines @ map (format_row fmt) filings"
  by (induction filings arbitrary: lines) simp_all

lemma fund_blocks_concat:
  "fund_blocks fmt items lines = lines @ concat (map (\<lambda>(c, info). block_lines fmt c info) items)"
  by (induction items arbitrary: lines) auto

lemma dict_set_new: "k \<notin> fst ` set d \<Longrightarrow> dict_set d k v = d @ [(k, v)]"
  by (induction d) auto

lemma fetch_outcome_any_log:
  "fst (fetch_13dg_filings_for_cik e c m calls) = fst (fetch_13dg_filings_for_cik e c m [])"
  by (simp add: fetch_13dg_filings_for_cik_def split: sum.splits)

lemma fetch_all_items:
  assumes "distinct (map cik funds)" and "set (map cik funds) \<inter> fst ` set acc = {}"
  shows "fst (fetch_all e funds acc calls) = acc @ map (fetched e) funds"
  using assms
proof (induction funds arbitrary: acc calls)
  case Nil
  then show ?case by simp
next
  case (Cons fund funds)
  obtain outcome calls' where
    step: "fetch_13dg_filings_for_cik e (cik fund) MAX_FILINGS_PER_FUND calls = (outcome, calls')"
    by (cases "fetch_13dg_filings_for_cik e (cik fund) MAX_FILINGS_PER_FUND calls")
  have out: "outcome = fst (fetch_13dg_filings_for_cik e (cik fund) MAX_FILINGS_PER_FUND [])"
    using step fetch_outcome_any_log [of e "cik fund" MAX_FILINGS_PER_FUND calls] by simp
  have new: "cik fund \<notin> fst ` set acc" using Cons.prems by auto
  define acc' where "acc' = acc @ [fetched e fund]"
  have disj: "set (map cik funds) \<inter> fst ` set acc' = {}"
    using Cons.prems by (auto simp: acc'_def fetched_def)
  have "fst (fetch_all e (fund # funds) acc calls) = fst (fetch_all e funds acc' calls')"
    using step out dict_set_new [OF new] by (simp add: acc'_def fetched_def)
  also have "\<dots> = acc' @ map (fetched e) funds"
    using Cons.IH [of acc' calls'] Cons.prems disj by simp
  finally show ?case by (simp add: acc'_def)
qed

lemma fetch_all_no_key:
  assumes "SEC_API_KEY e = [] \<or> SEC_API_KEY e = ''YOUR_SEC_API_KEY_HERE''"
  shows "snd (fetch_all e funds acc calls) = calls"
  using assms
  by (induction funds arbitrary: acc calls) (auto simp: fetch_13dg_filings_for_cik_def)

lemma send_parts_log:
  "\<exists>bodies. snd (send_parts e idx n chunks ok calls) = calls @ map TelegramPost bodies
            \<and> length bodies = length chunks"
proof (induction chunks arbitrary: idx ok calls)
  case Nil
  then show ?case by simp
next
  case (Cons chunk chunks)
  define body where "body = (if n > 1
      then ''(Part '' @ show_nat idx @ ''/'' @ show_nat n @ '')'' @ [NL] @ chunk else chunk)"
  obtain ok' where "send_parts e idx n (chunk # chunks) ok calls
      = send_parts e (idx + 1) n chunks ok' (calls @ [TelegramPost body])"
    by (simp add: body_def Let_def del: show_nat.simps)
  moreover obtain bodies where
    "snd (send_parts e (idx + 1) n chunks ok' (calls @ [TelegramPost body]))
       = (calls @ [TelegramPost body]) @ map TelegramPost bodies"
    and "length bodies = length chunks"
    using Cons by blast
  ultimately have "snd (send_parts e idx n (chunk # chunks) ok calls)
       = calls @ map TelegramPost (body # bodies) \<and> length (body # bodies) = length (chunk # chunks)"
    by simp
  then show ?case by blast
qed

lemma FUNDS_distinct: "distinct (map cik FUNDS)"
  by (simp add: FUNDS_def)

lemma join_nonempty: "x \<noteq> [] \<Longrightarrow> join sep (x # xs) \<noteq> []"
  by (cases xs) simp_all

lemma report_nonempty: "format_daily_report now fmt items \<noteq> []"
  unfolding format_daily_report_def fund_blocks_concat
  by (simp add: join_nonempty)

lemma chunk_text_some:
  assumes "1 \<le> max_len"
  shows "\<exists>chunks. chunk_text s max_len = Some chunks \<and> (s \<noteq> [] \<longrightarrow> chunks \<noteq> [])"
proof -
  from chunk_loop_spec [OF assms, of s "[]"]
  obtain cs seps where "chunk_text s max_len = Some cs" and "s = concat (map2 (@) cs seps)"
    unfolding chunk_text_def by auto
  then show ?thesis by auto
qed

lemma send_telegram_message_log:
  "\<exists>ok bodies. send_telegram_message e msg calls = Some (ok, calls @ map TelegramPost bodies)
     \<and> (TELEGRAM_BOT_TOKEN e \<noteq> [] \<and> TELEGRAM_CHAT_ID e \<noteq> [] \<and> msg \<noteq> [] \<longrightarrow> bodies \<noteq> [])"
proof (cases "TELEGRAM_BOT_TOKEN e = [] \<or> TELEGRAM_CHAT_ID e = []")
  case True
  then have "send_telegram_message e msg calls = Some (False, calls @ map TelegramPost [])"
    by (simp add: send_telegram_message_def)
  with True show ?thesis by blast
next
  case False
  obtain chunks where ch: "chunk_text msg MAX_TELEGRAM_LENGTH = Some chunks"
    and ne: "msg \<noteq> [] \<longrightarrow> chunks \<noteq> []"
    using chunk_text_some [of MAX_TELEGRAM_LENGTH msg] by (auto simp: MAX_TELEGRAM_LENGTH_def)
  obtain bodies where
    b: "snd (send_parts e 1 (length chunks) chunks True calls) = calls @ map TelegramPost bodies"
    and len: "length bodies = length chunks"
    using send_parts_log by blast
  have "send_telegram_message e msg calls
      = Some (fst (send_parts e 1 (length chunks) chunks True calls), calls @ map TelegramPost bodies)"
    using False ch b by (simp add: send_telegram_message_def flip: b)
  moreover have "msg \<noteq> [] \<longrightarrow> bodies \<noteq> []" using ne len by auto
  ultimately show ?thesis by blast
qed

lemma main_result:
  "\<exists>ok bodies.
     main e = Some \<lparr>report_text = format_daily_report (clock_now e) (float_format e) (map (fetched e) FUNDS),
                     delivered = ok,
                     requests = snd (fetch_all e FUNDS [] []) @ map TelegramPost bodies\<rparr>
     \<and> (TELEGRAM_BOT_TOKEN e \<noteq> [] \<and> TELEGRAM_CHAT_ID e \<noteq> [] \<longrightarrow> bodies \<noteq> [])"
proof -
  obtain items calls where run: "fetch_all e FUNDS [] [] = (items, calls)"
    by (cases "fetch_all e FUNDS [] []")
  have items: "items = map (fetched e) FUNDS"
    using fetch_all_items [OF FUNDS_distinct, of "[]" e "[]"] run by simp
  define report where "report = format_daily_report (clock_now e) (float_format e) items"
  obtain ok bodies where
    s: "send_telegram_message e report calls = Some (ok, calls @ map TelegramPost bodies)"
    and ne: "TELEGRAM_BOT_TOKEN e \<noteq> [] \<and> TELEGRAM_CHAT_ID e \<noteq> [] \<and> report \<noteq> [] \<longrightarrow> bodies \<noteq> []"
    using send_telegram_message_log by blast
  have "main e = Some \<lparr>report_text = report, delivered = ok,
                     requests = calls @ map TelegramPost bodies\<rparr>"
    using run s by (simp add: main_def report_def)
  moreover have "report \<noteq> []" unfolding report_def by (rule report_nonempty)
  ultimately show ?thesis using ne run unfolding report_def items by auto
qed

subsection \<open>The claims about the formatter and the pipeline\<close>

text \<open>
  Claim C8, as stated: an issuer name longer than 35 characters is shown as its first 32
  characters and \<open>...\<close>.  The formatter strips the name first: a name of 36 characters
  that starts with a space is 35 characters long once stripped, and is shown in full.
\<close>

theorem issuer_column_counterexample:
  "length ('' '' @ replicate 35 CHR ''A'') > 35
   \<and> issuer_column \<lparr>form = Some ''SC 13G'', filed_at_date = ''2025-11-24'',
                     issuer = Some ('' '' @ replicate 35 CHR ''A''), percent_owned = None\<rparr>
       = replicate 35 CHR ''A''
   \<and> issuer_column \<lparr>form = Some ''SC 13G'', filed_at_date = ''2025-11-24'',
                     issuer = Some ('' '' @ replicate 35 CHR ''A''), percent_owned = None\<rparr>
       \<noteq> take 32 ('' '' @ replicate 35 CHR ''A'') @ ''...''"
  by code_simp

text \<open>
  Claim C8, amended: every filing row of the report is the date, the issuer column and the
  percentage, and the issuer column is made from the issuer name stripped of leading and
  trailing whitespace (a missing name counts as empty): when the stripped name is longer
  than 35 characters, its first 32 characters followed by \<open>...\<close>; otherwise the
  stripped name padded with spaces to 35 characters.  The column is 35 characters wide.
\<close>

theorem issuer_column_stripped:
  "(info_filings info \<noteq> [] \<longrightarrow>
      block_lines fmt c info =
        [replicate 70 CHR ''='', info_name info @ '' (CIK '' @ c @ '')'', replicate 70 CHR ''-'',
         ''Date       | Issuer                               | % owned'', replicate 70 CHR ''-'']
        @ map (format_row fmt) (info_filings info) @ [''''])
   \<and> format_row fmt f =
         filed_at_date f @ '' | '' @ issuer_column f @ '' | ''
           @ (case percent_owned f of None \<Rightarrow> ''N/A'' | Some p \<Rightarrow> fmt p @ ''%'')
   \<and> (let stripped = strip (case issuer f of None \<Rightarrow> [] | Some s \<Rightarrow> s)
       in issuer_column f =
            (if length stripped > 35 then take 32 stripped @ ''...''
             else stripped @ replicate (35 - length stripped) CHR '' ''))
   \<and> length (issuer_column f) = 35"
proof (intro conjI impI)
  assume "info_filings info \<noteq> []"
  then show "block_lines fmt c info =
        [replicate 70 CHR ''='', info_name info @ '' (CIK '' @ c @ '')'', replicate 70 CHR ''-'',
         ''Date       | Issuer                               | % owned'', replicate 70 CHR ''-'']
        @ map (format_row fmt) (info_filings info) @ ['''']"
    by (simp add: block_lines_def filing_rows_map)
next
  show "format_row fmt f =
         filed_at_date f @ '' | '' @ issuer_column f @ '' | ''
           @ (case percent_owned f of None \<Rightarrow> ''N/A'' | Some p \<Rightarrow> fmt p @ ''%'')"
    by (simp add: format_row_def)
next
  show "let stripped = strip (case issuer f of None \<Rightarrow> [] | Some s \<Rightarrow> s)
       in issuer_column f =
            (if length stripped > 35 then take 32 stripped @ ''...''
             else stripped @ replicate (35 - length stripped) CHR '' '')"
    by (simp add: issuer_column_def Let_def ljust_def slice_to_def adjust_index_def)
next
  show "length (issuer_column f) = 35"
    by (simp add: issuer_column_def Let_def ljust_def slice_to_def adjust_index_def)
qed

theorem issuer_column_stripped_witness:
  "info_filings \<lparr>info_name = ''Elliott'', info_filings = [sample_row]\<rparr> \<noteq> []
   \<and> block_lines (\<lambda>p. ''7.0'') ''1791786'' \<lparr>info_name = ''Elliott'', info_filings = [sample_row]\<rparr> =
        [replicate 70 CHR ''='', ''Elliott (CIK 1791786)'', replicate 70 CHR ''-'',
         ''Date       | Issuer                               | % owned'', replicate 70 CHR ''-'',
         ''2025-11-24 | ACME Holdings Corporation Intern... | 7.0%'', '''']
   \<and> issuer_column sample_row = ''ACME Holdings Corporation Intern...''
   \<and> length (issuer_column sample_row) = 35"
proof -
  have st: "strip ''ACME Holdings Corporation International''
      = ''ACME Holdings Corporation International''"
    by code_simp
  from issuer_column_stripped
    [of "\<lparr>info_name = ''Elliott'', info_filings = [sample_row]\<rparr>" "\<lambda>p. ''7.0''" "''1791786''"
      sample_row]
  show ?thesis
    by (simp add: sample_row_def st)
qed

text \<open>
  Claim C6, as stated: a missing or invalid credential raises a fatal error that aborts the
  run.  The error is raised, before the network call, but inside the \<open>try\<close> of \<open>main\<close>:
  with an empty key the run goes on, and the report (every filer without filings) is
  delivered.
\<close>

theorem missing_key_counterexample:
  "SEC_API_KEY keyless_env = []
   \<and> fetch_13dg_filings_for_cik keyless_env ''1603466'' 5 [] = (Inl RuntimeError, [])
   \<and> map_option delivered (main keyless_env) = Some True
   \<and> map_option requests (main keyless_env)
       = map_option (\<lambda>r. [TelegramPost (report_text r)]) (main keyless_env)"
  by code_simp

text \<open>
  Claim C6, amended: if the key of the filings data source is empty or the placeholder
  \<open>YOUR_SEC_API_KEY_HERE\<close>, every fetch raises a configuration error before it makes a
  network call; \<open>main\<close> catches it for each filer and records an empty filing list, so the
  run is not aborted: no call to the data source is made, the report shows every filer
  without filings, and it is handed to the delivery (which posts it unless the messaging
  configuration is missing).
\<close>

theorem missing_key_is_caught:
  assumes "SEC_API_KEY e = [] \<or> SEC_API_KEY e = ''YOUR_SEC_API_KEY_HERE''"
  shows "fetch_13dg_filings_for_cik e c max_filings calls = (Inl RuntimeError, calls)
         \<and> fetch_all e FUNDS [] []
             = (map (\<lambda>f. (cik f, \<lparr>info_name = name f, info_filings = []\<rparr>)) FUNDS, [])
         \<and> (\<exists>ok bodies.
               main e = Some \<lparr>report_text =
                                 format_daily_report (clock_now e) (float_format e)
                                   (map (\<lambda>f. (cik f, \<lparr>info_name = name f, info_filings = []\<rparr>)) FUNDS),
                               delivered = ok, requests = map TelegramPost bodies\<rparr>
               \<and> (bodies = [] \<longleftrightarrow> TELEGRAM_BOT_TOKEN e = [] \<or> TELEGRAM_CHAT_ID e = []))"
proof -
  have raise: "fetch_13dg_filings_for_cik e c m calls = (Inl RuntimeError, calls)" for c m calls
    using assms by (auto simp: fetch_13dg_filings_for_cik_def)
  have item: "fetched e f = (cik f, \<lparr>info_name = name f, info_filings = []\<rparr>)" for f
    by (simp add: fetched_def raise)
  have fe: "fetched e = (\<lambda>f. (cik f, \<lparr>info_name = name f, info_filings = []\<rparr>))"
    by (rule ext) (rule item)
  have items: "fst (fetch_all e FUNDS [] []) = map (fetched e) FUNDS"
    using fetch_all_items [OF FUNDS_distinct, of "[]" e "[]"] by simp
  have calls: "snd (fetch_all e FUNDS [] []) = []"
    by (rule fetch_all_no_key [OF assms])
  have all: "fetch_all e FUNDS [] []
      = (map (\<lambda>f. (cik f, \<lparr>info_name = name f, info_filings = []\<rparr>)) FUNDS, [])"
    using items calls by (simp add: item prod_eq_iff)
  obtain ok bodies where
    m: "main e = Some \<lparr>report_text = format_daily_report (clock_now e) (float_format e) (map (fetched e) FUNDS),
                     delivered = ok,
                     requests = snd (fetch_all e FUNDS [] []) @ map TelegramPost bodies\<rparr>"
    and ne: "TELEGRAM_BOT_TOKEN e \<noteq> [] \<and> TELEGRAM_CHAT_ID e \<noteq> [] \<longrightarrow> bodies \<noteq> []"
    using main_result by blast
  have off: "TELEGRAM_BOT_TOKEN e = [] \<or> TELEGRAM_CHAT_ID e = [] \<longrightarrow> bodies = []"
  proof
    assume off: "TELEGRAM_BOT_TOKEN e = [] \<or> TELEGRAM_CHAT_ID e = []"
    then have "main e = Some \<lparr>report_text = format_daily_report (clock_now e) (float_format e)
                 (map (\<lambda>f. (cik f, \<lparr>info_name = name f, info_filings = []\<rparr>)) FUNDS),
               delivered = False, requests = []\<rparr>"
      by (auto simp: main_def all send_telegram_message_def)
    with m calls show "bodies = []" by simp
  qed
  have "main e = Some \<lparr>report_text =
                                 format_daily_report (clock_now e) (float_format e)
                                   (map (\<lambda>f. (cik f, \<lparr>info_name = name f, info_filings = []\<rparr>)) FUNDS),
                               delivered = ok, requests = map TelegramPost bodies\<rparr>"
    using m calls fe by simp
  with raise all ne off show ?thesis by blast
qed

theorem missing_key_is_caught_witness:
  "(SEC_API_KEY keyless_env = [] \<or> SEC_API_KEY keyless_env = ''YOUR_SEC_API_KEY_HERE'')
   \<and> fetch_13dg_filings_for_cik keyless_env ''1603466'' 5 [SecApiPost ''0'']
        = (Inl RuntimeError, [SecApiPost ''0''])
   \<and> (\<exists>ok bodies.
         main keyless_env
           = Some \<lparr>report_text =
                     format_daily_report (clock_now keyless_env) (float_format keyless_env)
                       (map (\<lambda>f. (cik f, \<lparr>info_name = name f, info_filings = []\<rparr>)) FUNDS),
                   delivered = ok, requests = map TelegramPost bodies\<rparr>
         \<and> (bodies = [] \<longleftrightarrow> TELEGRAM_BOT_TOKEN keyless_env = [] \<or> TELEGRAM_CHAT_ID keyless_env = []))"
proof -
  have k: "SEC_API_KEY keyless_env = [] \<or> SEC_API_KEY keyless_env = ''YOUR_SEC_API_KEY_HERE''"
    by (simp add: keyless_env_def sample_env_def)
  from missing_key_is_caught [OF k, of "''1603466''" 5 "[SecApiPost ''0'']"] k
  show ?thesis by blast
qed

text \<open>
  Claim C7.  When the fetch for a configured filer raises an error, \<open>main\<close> stores an
  empty filing list for that filer and goes on with the others: the run completes, the
  report has one block per configured filer, in the configured order, each made from what
  the filer's own fetch gave, and the block of the failing filer is the one without filings.
\<close>

theorem fetch_failure_gives_empty_block:
  assumes "fund \<in> set FUNDS"
    and "fst (fetch_13dg_filings_for_cik e (cik fund) MAX_FILINGS_PER_FUND calls) = Inl ex"
  shows "fst (fetch_all e FUNDS [] []) = map (fetched e) FUNDS
         \<and> fetched e fund = (cik fund, \<lparr>info_name = name fund, info_filings = []\<rparr>)
         \<and> (\<exists>r. main e = Some r
               \<and> report_text r =
                   join [NL]
                     ([''Daily 13D/13G Ownership Snapshot'',
                       ''Date (UTC): '' @ clock_now e,
                       ''Showing up to 5 latest filings per fund'',
                       '''']
                      @ concat (map (\<lambda>f. block_lines (float_format e) (cik f) (snd (fetched e f))) FUNDS)))
         \<and> block_lines (float_format e) (cik fund) (snd (fetched e fund)) =
             [replicate 70 CHR ''='',
              name fund @ '' (CIK '' @ cik fund @ '')'',
              replicate 70 CHR ''-'',
              ''Date       | Issuer                               | % owned'',
              replicate 70 CHR ''-'',
              ''No 13D/13G filings in the lookback window.'',
              '''']"
proof -
  have items: "fst (fetch_all e FUNDS [] []) = map (fetched e) FUNDS"
    using fetch_all_items [OF FUNDS_distinct, of "[]" e "[]"] by simp
  have "fst (fetch_13dg_filings_for_cik e (cik fund) MAX_FILINGS_PER_FUND []) = Inl ex"
    using assms(2) fetch_outcome_any_log [of e "cik fund" MAX_FILINGS_PER_FUND calls] by simp
  then have item: "fetched e fund = (cik fund, \<lparr>info_name = name fund, info_filings = []\<rparr>)"
    by (simp add: fetched_def)
  have five: "show_int MAX_FILINGS_PER_FUND = ''5''"
    by code_simp
  have cat: "map (\<lambda>(c, info). block_lines fmt c info) (map (fetched e) FUNDS)
      = map (\<lambda>f. block_lines fmt (cik f) (snd (fetched e f))) FUNDS" for fmt
    by (simp add: fetched_def)
  obtain ok bodies where
    m: "main e = Some \<lparr>report_text = format_daily_report (clock_now e) (float_format e) (map (fetched e) FUNDS),
                     delivered = ok,
                     requests = snd (fetch_all e FUNDS [] []) @ map TelegramPost bodies\<rparr>"
    using main_result by blast
  have rep: "format_daily_report (clock_now e) (float_format e) (map (fetched e) FUNDS) =
      join [NL]
        ([''Daily 13D/13G Ownership Snapshot'', ''Date (UTC): '' @ clock_now e,
          ''Showing up to 5 latest filings per fund'', '''']
         @ concat (map (\<lambda>f. block_lines (float_format e) (cik f) (snd (fetched e f))) FUNDS))"
    unfolding format_daily_report_def fund_blocks_concat cat five by simp
  have block: "block_lines (float_format e) (cik fund) (snd (fetched e fund)) =
             [replicate 70 CHR ''='', name fund @ '' (CIK '' @ cik fund @ '')'',
              replicate 70 CHR ''-'',
              ''Date       | Issuer                               | % owned'',
              replicate 70 CHR ''-'', ''No 13D/13G filings in the lookback window.'', '''']"
    by (simp add: item block_lines_def)
  from m rep have "\<exists>r. main e = Some r \<and> report_text r =
      join [NL]
        ([''Daily 13D/13G Ownership Snapshot'', ''Date (UTC): '' @ clock_now e,
          ''Showing up to 5 latest filings per fund'', '''']
         @ concat (map (\<lambda>f. block_lines (float_format e) (cik f) (snd (fetched e f))) FUNDS))"
    by simp
  with items item block show ?thesis by blast
qed

theorem fetch_failure_gives_empty_block_witness:
  "\<lparr>name = ''Elliott'', cik = ''1791786''\<rparr> \<in> set FUNDS
   \<and> fst (fetch_13dg_filings_for_cik sample_env ''1791786'' MAX_FILINGS_PER_FUND [])
       = Inl RequestException
   \<and> fetched sample_env \<lparr>name = ''Elliott'', cik = ''1791786''\<rparr>
       = (''1791786'', \<lparr>info_name = ''Elliott'', info_filings = []\<rparr>)
   \<and> (\<exists>r. main sample_env = Some r
         \<and> report_text r =
             join [NL]
               ([''Daily 13D/13G Ownership Snapshot'',
                 ''Date (UTC): '' @ clock_now sample_env,
                 ''Showing up to 5 latest filings per fund'',
                 '''']
                @ concat (map (\<lambda>f. block_lines (float_format sample_env) (cik f)
                                     (snd (fetched sample_env f)))
                            FUNDS)))
   \<and> block_lines (float_format sample_env) ''1791786''
         (snd (fetched sample_env \<lparr>name = ''Elliott'', cik = ''1791786''\<rparr>)) =
       [replicate 70 CHR ''='', ''Elliott'' @ '' (CIK '' @ ''1791786'' @ '')'', replicate 70 CHR ''-'',
        ''Date       | Issuer                               | % owned'',
        replicate 70 CHR ''-'', ''No 13D/13G filings in the lookback window.'', '''']"
proof -
  have a: "\<lparr>name = ''Elliott'', cik = ''1791786''\<rparr> \<in> set FUNDS"
    by (simp add: FUNDS_def)
  have b: "fst (fetch_13dg_filings_for_cik sample_env
            (cik \<lparr>name = ''Elliott'', cik = ''1791786''\<rparr>) MAX_FILINGS_PER_FUND [])
        = Inl RequestException"
    by (simp add: fetch_13dg_filings_for_cik_def sample_env_def)
  note claim = fetch_failure_gives_empty_block [OF a b, unfolded fund.select_convs]
  from claim a b [unfolded fund.select_convs]
  show ?thesis by blast
qed

end
